theory Spec2Isabelle
  imports Complex_Main "HOL-Library.Sublist"
begin

section \<open>Python values and exceptions\<close>

text \<open>
  An exception object carries the names of the classes it is an instance of (its class
  and all its bases) and its message; \<open>isinstance\<close> is membership in that list, and an
  \<open>except\<close> clause over a tuple of classes catches an exception that is an instance of
  one of them.
\<close>

datatype exc = Exc (classes: "string list") (msg: string)

definition isinstance :: "exc \<Rightarrow> string \<Rightarrow> bool" where
  "isinstance e c = (c \<in> set (classes e))"

definition caught_by :: "string list \<Rightarrow> exc \<Rightarrow> bool" where
  "caught_by cs e = list_ex (isinstance e) cs"

definition ValueError :: "string \<Rightarrow> exc" where
  "ValueError m = Exc [''ValueError'', ''Exception'', ''BaseException''] m"

definition TypeError :: "string \<Rightarrow> exc" where
  "TypeError m = Exc [''TypeError'', ''Exception'', ''BaseException''] m"

text \<open>
  Modelled from the spec: \<open>pydash.exceptions.InvalidMethod\<close> (the module is not among
  the sources), the error condition of the chain that carries the unresolved name; an
  ordinary exception class.
\<close>

definition InvalidMethod :: "string \<Rightarrow> exc" where
  "InvalidMethod m = Exc [''InvalidMethod'', ''Exception'', ''BaseException''] m"

text \<open>
  The values the path functions of \<open>utilities.py\<close> receive and return. A
  \<open>PathToken\<close> is the named tuple of the source: a key and the factory (\<open>dict\<close> or
  \<open>list\<close>) of the container expected at that position. Numbers are integers here, and
  a character is one code point below 256.
\<close>

datatype factory = dict_factory | list_factory

datatype pyval =
    PStr string
  | PInt int
  | PBool bool
  | PNone
  | UNSET
  | PList "pyval list"
  | PTuple "pyval list"
  | PathToken (key: pyval) (default_factory: factory)

text \<open>
  Modelled from the spec: \<open>pydash.is_string\<close> and \<open>pydash.is_number\<close> (the
  predicates module is not among the sources); a boolean is not a number.
\<close>

definition is_string :: "pyval \<Rightarrow> bool" where
  "is_string v = (case v of PStr _ \<Rightarrow> True | _ \<Rightarrow> False)"

definition is_number :: "pyval \<Rightarrow> bool" where
  "is_number v = (case v of PInt _ \<Rightarrow> True | _ \<Rightarrow> False)"

section \<open>The path tokenizer (\<open>utilities.py\<close>)\<close>

subsection \<open>The two regular expressions\<close>

text \<open>
  \<open>RE_PATH_KEY_DELIM\<close> is \<^verbatim>\<open>(?<!\\)(?:\\\\)*\.|(\[-?\d+\])\<close>. Its first
  alternative needs the character before the match not to be a backslash, then takes
  pairs of backslashes and a dot; since the character after the pairs must be a dot, only
  the longest run of pairs can succeed. The second alternative, the only group, is an
  opening bracket, an optional minus, digits and a closing bracket. Each function below
  gives the length of the match at the start of the string, if there is one.
\<close>

definition is_digit :: "char \<Rightarrow> bool" where
  "is_digit c = (c \<in> set ''0123456789'')"

fun skip_pairs :: "string \<Rightarrow> string" where
  "skip_pairs (a # b # r) = (if a = CHR 0x5C \<and> b = CHR 0x5C then skip_pairs r else a # b # r)"
| "skip_pairs s = s"

definition match_dot :: "char option \<Rightarrow> string \<Rightarrow> nat option" where
  "match_dot prev s =
     (if prev = Some (CHR 0x5C) then None
      else (case skip_pairs s of
              c # r \<Rightarrow> if c = CHR ''.'' then Some (length s - length r) else None
            | [] \<Rightarrow> None))"

definition match_index :: "string \<Rightarrow> nat option" where
  "match_index s =
     (case s of
        [] \<Rightarrow> None
      | c # r \<Rightarrow>
          if c \<noteq> CHR ''['' then None
          else (let m = (case r of [] \<Rightarrow> 0 | d # _ \<Rightarrow> if d = CHR ''-'' then 1 else (0::nat));
                    t = drop m r;
                    ds = takeWhile is_digit t
                in if ds \<noteq> [] \<and> take 1 (dropWhile is_digit t) = '']''
                   then Some (1 + m + length ds + 1) else None))"

definition match_delim :: "char option \<Rightarrow> string \<Rightarrow> (nat \<times> string option) option" where
  "match_delim prev s =
     (case match_dot prev s of
        Some n \<Rightarrow> Some (n, None)
      | None \<Rightarrow> (case match_index s of
                   Some n \<Rightarrow> Some (n, Some (take n s))
                 | None \<Rightarrow> None))"

lemma skip_pairs_length: "length (skip_pairs s) \<le> length s"
  by (induction s rule: skip_pairs.induct) auto

lemma match_dot_bounds: "match_dot prev s = Some n \<Longrightarrow> 0 < n \<and> n \<le> length s"
  using skip_pairs_length [of s]
  by (auto simp: match_dot_def split: if_splits list.splits)

lemma takeWhile_dropWhile_length:
  "length (takeWhile P t) + length (dropWhile P t) = length t"
  by (induction t) auto

lemma match_index_Some:
  "match_index s = Some n \<longleftrightarrow>
     (\<exists>r m. s = CHR ''['' # r \<and> m = (if take 1 r = ''-'' then 1 else 0) \<and>
        takeWhile is_digit (drop m r) \<noteq> [] \<and>
        take 1 (dropWhile is_digit (drop m r)) = '']'' \<and>
        n = 1 + m + length (takeWhile is_digit (drop m r)) + 1)"
proof (cases s)
  case Nil
  then show ?thesis by (simp add: match_index_def)
next
  case (Cons c r)
  have m: "(case r of [] \<Rightarrow> 0 | d # _ \<Rightarrow> if d = CHR ''-'' then 1 else (0::nat))
           = (if take 1 r = ''-'' then 1 else 0)"
    by (cases r) auto
  show ?thesis unfolding Cons match_index_def list.case m Let_def
    by auto
qed

lemma match_index_bounds: "match_index s = Some n \<Longrightarrow> 0 < n \<and> n \<le> length s"
proof -
  assume "match_index s = Some n"
  then obtain r m where s: "s = CHR ''['' # r"
    and m: "m = (if take 1 r = ''-'' then 1 else (0::nat))"
    and d: "take 1 (dropWhile is_digit (drop m r)) = '']''"
    and n: "n = 1 + m + length (takeWhile is_digit (drop m r)) + 1"
    unfolding match_index_Some by blast
  have "m \<le> length r" unfolding m by (cases r) auto
  then have "length (drop m r) + m = length r" by simp
  moreover have "dropWhile is_digit (drop m r) \<noteq> []"
  proof
    assume "dropWhile is_digit (drop m r) = []"
    with d show False by simp
  qed
  then have "length (takeWhile is_digit (drop m r)) + 1 \<le> length (drop m r)"
    using takeWhile_dropWhile_length [of is_digit "drop m r"]
    by (cases "dropWhile is_digit (drop m r)") auto
  ultimately show ?thesis using n s by simp
qed

lemma match_delim_bounds: "match_delim prev s = Some (n, g) \<Longrightarrow> 0 < n \<and> n \<le> length s"
  by (auto simp: match_delim_def split: option.splits dest: match_dot_bounds match_index_bounds)

text \<open>
  \<open>RE_PATH_KEY_DELIM.split(value)\<close>: the scan looks for the leftmost match, trying the
  first alternative before the second at each position; it emits the text since the last
  match, then the group of the match (\<open>None\<close> when the dot alternative matched), and goes
  on after the match; the text after the last match ends the list. \<open>prev\<close> is the
  character before the position and \<open>acc\<close> the text since the last match.
\<close>

function split_from :: "char option \<Rightarrow> string \<Rightarrow> string \<Rightarrow> string option list" where
  "split_from prev acc [] = [Some acc]"
| "split_from prev acc (c # cs) =
     (case match_delim prev (c # cs) of
        Some (n, g) \<Rightarrow>
          Some acc # g # split_from (Some (last (take n (c # cs)))) [] (drop n (c # cs))
      | None \<Rightarrow> split_from (Some c) (acc @ [c]) cs)"
  by pat_completeness auto
termination
  by (relation "measure (\<lambda>(prev, acc, s). length s)") (auto dest: match_delim_bounds)

definition RE_PATH_KEY_DELIM_split :: "string \<Rightarrow> string option list" where
  "RE_PATH_KEY_DELIM_split s = split_from None [] s"

text \<open>\<open>filter(None, ...)\<close> drops \<open>None\<close> and the empty string.\<close>

fun filter_None :: "string option list \<Rightarrow> string list" where
  "filter_None [] = []"
| "filter_None (None # ps) = filter_None ps"
| "filter_None (Some p # ps) = (if p = [] then filter_None ps else p # filter_None ps)"

text \<open>
  \<open>RE_PATH_LIST_INDEX.match(key)\<close>, for \<^verbatim>\<open>^\[-?\d+\]$\<close>: the dollar also matches
  before a newline that ends the string.
\<close>

definition RE_PATH_LIST_INDEX_match :: "string \<Rightarrow> bool" where
  "RE_PATH_LIST_INDEX_match k =
     (case match_index k of
        None \<Rightarrow> False
      | Some n \<Rightarrow> n = length k \<or> drop n k = [CHR 0x0A])"

subsection \<open>Keys\<close>

text \<open>\<open>str.replace(old, new)\<close>: every occurrence of \<open>old\<close>, from the left, without overlap.\<close>

fun str_replace :: "string \<Rightarrow> string \<Rightarrow> string \<Rightarrow> string" where
  "str_replace old new [] = (if old = [] then new else [])"
| "str_replace old new (c # cs) =
     (if old = [] then new @ c # str_replace old new cs
      else if prefix old (c # cs) then new @ str_replace old new (drop (length old - 1) cs)
      else c # str_replace old new cs)"

definition unescape_path_key :: "string \<Rightarrow> string" where
  "unescape_path_key k =
     (let k1 = str_replace [CHR 0x5C, CHR 0x5C] [CHR 0x5C] k
      in str_replace [CHR 0x5C, CHR ''.''] ''.'' k1)"

text \<open>
  \<open>int(key[1:-1])\<close>. The text between the brackets is an optional minus and decimal
  digits; on any other text this \<open>py_int\<close> raises \<open>ValueError\<close>.
\<close>

definition digit_value :: "char \<Rightarrow> nat" where
  "digit_value c = of_char c - 48"

definition decimal :: "string \<Rightarrow> nat" where
  "decimal ds = foldl (\<lambda>a c. 10 * a + digit_value c) 0 ds"

definition py_int :: "string \<Rightarrow> exc + int" where
  "py_int s =
     (let neg = (take 1 s = ''-'');
          ds = (if neg then drop 1 s else s)
      in if ds \<noteq> [] \<and> list_all is_digit ds
         then Inr (if neg then - int (decimal ds) else int (decimal ds))
         else Inl (ValueError (''invalid literal for int() with base 10: '' @ s)))"

definition path_token :: "string \<Rightarrow> exc + pyval" where
  "path_token k =
     (if RE_PATH_LIST_INDEX_match k
      then (case py_int (butlast (drop 1 k)) of
              Inl e \<Rightarrow> Inl e
            | Inr i \<Rightarrow> Inr (PathToken (PInt i) list_factory))
      else Inr (PathToken (PStr (unescape_path_key k)) dict_factory))"

text \<open>A list comprehension whose element expression may raise: the first error ends it.\<close>

fun collect :: "(exc + 'a) list \<Rightarrow> exc + 'a list" where
  "collect [] = Inr []"
| "collect (Inl e # xs) = Inl e"
| "collect (Inr x # xs) = (case collect xs of Inl e \<Rightarrow> Inl e | Inr ys \<Rightarrow> Inr (x # ys))"

definition path_keys :: "string \<Rightarrow> exc + pyval list" where
  "path_keys s = collect (map path_token (filter_None (RE_PATH_KEY_DELIM_split s)))"

subsection \<open>\<open>to_path_tokens\<close> and \<open>to_path\<close>\<close>

definition to_path_tokens :: "pyval \<Rightarrow> exc + pyval" where
  "to_path_tokens v =
     (if is_string v \<and> (case v of PStr s \<Rightarrow> CHR ''.'' \<in> set s \<or> CHR ''['' \<in> set s | _ \<Rightarrow> False)
      then (case v of
              PStr s \<Rightarrow> (case path_keys s of Inl e \<Rightarrow> Inl e | Inr ks \<Rightarrow> Inr (PList ks))
            | _ \<Rightarrow> Inr v)
      else if is_string v \<or> is_number v then Inr (PList [PathToken v dict_factory])
      else if v = UNSET then Inr (PList [])
      else Inr v)"

definition to_path :: "pyval \<Rightarrow> exc + pyval" where
  "to_path v =
     (case to_path_tokens v of
        Inl e \<Rightarrow> Inl e
      | Inr (PList ts) \<Rightarrow>
          Inr (PList (map (\<lambda>t. case t of PathToken k f \<Rightarrow> k | _ \<Rightarrow> t) ts))
      | Inr t \<Rightarrow> Inr (PList [t]))"

subsection \<open>Notions used to state the properties of the tokenizer\<close>

text \<open>
  A bracketed integer as it is written in a path: an opening bracket, a minus if \<open>neg\<close>,
  the digits \<open>ds\<close>, a closing bracket.
\<close>

definition index_str :: "bool \<Rightarrow> string \<Rightarrow> string" where
  "index_str neg ds = ''['' @ (if neg then ''-'' else []) @ ds @ '']''"

text \<open>
  A piece of a split is either a whole bracketed integer or has no bracketed integer at
  its start.
\<close>

definition good_piece :: "string \<Rightarrow> bool" where
  "good_piece p \<longleftrightarrow> match_index p = None \<or> match_index p = Some (length p)"

text \<open>
  The escaped writing of a key: a backslash before every dot and every backslash.
  \<open>escape_dots\<close> is the intermediate text, in which only the dots are escaped.
\<close>

definition escape_char :: "char \<Rightarrow> string" where
  "escape_char c = (if c = CHR ''.'' \<or> c = CHR 0x5C then [CHR 0x5C, c] else [c])"

definition escape_path_key :: "string \<Rightarrow> string" where
  "escape_path_key k = concat (map escape_char k)"

definition escape_dots :: "string \<Rightarrow> string" where
  "escape_dots k = concat (map (\<lambda>c. if c = CHR ''.'' then [CHR 0x5C, c] else [c]) k)"


section \<open>Chaining (\<open>chaining.py\<close>)\<close>

subsection \<open>Objects and the heap\<close>

text \<open>
  \<open>Chain\<close> and \<open>ChainWrapper\<close> objects are mutable and refer to each other, so they live
  in a heap and are named by their addresses. The attribute \<open>_value\<close> of either object
  holds a plain value or (a reference to) a \<open>ChainWrapper\<close>. A \<open>Chain\<close> has no other
  attribute, so the heap keeps its \<open>_value\<close> slot only. Positional arguments are a list
  and keyword arguments an association list. The fields \<open>cw_value\<close> and \<open>cw_method\<close>
  of a wrapper are its attributes \<open>_value\<close> and \<open>method\<close>. A function of the
  \<open>pydash\<close> module takes
  the chained value first and returns a value or raises. The heap also records every
  call of a wrapper's method (which wrapper made it, and what it passed), so that the
  number and the order of the invocations can be stated.
\<close>

type_synonym addr = nat

datatype 'v slot = Plain 'v | Wrapper addr

type_synonym 'v kwargs = "(string \<times> 'v) list"

type_synonym 'v callable = "'v \<Rightarrow> 'v list \<Rightarrow> 'v kwargs \<Rightarrow> exc + 'v"

datatype 'v attribute = Callable "'v callable" | NonCallable

record 'v ChainWrapper =
  cw_value :: "'v slot" cw_method :: "'v callable" args :: "'v list" kargs :: "'v kwargs"

record 'v call =
  receiver :: addr
  passed :: 'v
  call_args :: "'v list"
  call_kargs :: "'v kwargs"

record 'v heap =
  chains :: "'v slot list"
  wrappers :: "'v ChainWrapper list"
  calls :: "'v call list"


definition lookup :: "'a list \<Rightarrow> addr \<Rightarrow> 'a option" where
  "lookup xs a = (if a < length xs then Some (xs ! a) else None)"

subsection \<open>\<open>Chain\<close> and \<open>ChainWrapper\<close>\<close>


text \<open>
  \<open>ChainWrapper.__init__\<close>: a new wrapper with the given value and method, an empty
  argument tuple and an empty keyword dictionary.
\<close>

definition ChainWrapper_init :: "'v slot \<Rightarrow> 'v callable \<Rightarrow> 'v heap \<Rightarrow> addr \<times> 'v heap" where
  "ChainWrapper_init v m h =
     (length (wrappers h),
      h\<lparr>wrappers := wrappers h @ [\<lparr>cw_value = v, cw_method = m, args = [], kargs = []\<rparr>]\<rparr>)"

text \<open>
  \<open>Chain.__getattr__\<close>. The module \<open>pydash\<close> is the registry \<open>pyd\<close>, a map from
  names to attributes; \<open>getattr(pyd, attr, None)\<close> is the lookup, and neither \<open>None\<close> nor
  an attribute that is not callable passes \<open>callable\<close>. The wrapper receives the
  \<open>_value\<close> of the chain as it is, resolved or not. The result is \<open>None\<close> only when
  \<open>self\<close> is not the address of a chain.
\<close>

definition Chain_getattr ::
  "(string \<Rightarrow> 'v attribute option) \<Rightarrow> addr \<Rightarrow> string \<Rightarrow> 'v heap \<Rightarrow> ((exc + addr) \<times> 'v heap) option" where
  "Chain_getattr pyd self attr h =
     (case lookup (chains h) self of
        None \<Rightarrow> None
      | Some v \<Rightarrow>
          (case pyd attr of
             Some (Callable m) \<Rightarrow>
               (case ChainWrapper_init v m h of (w, h') \<Rightarrow> Some (Inr w, h'))
           | _ \<Rightarrow> Some (Inl (InvalidMethod (''Invalid pydash method: '' @ attr)), h)))"







subsection \<open>Attribute access on a \<open>Chain\<close>\<close>

text \<open>
  \<open>c.name\<close> on a \<open>Chain\<close>. Python calls \<open>__getattr__\<close> only when the normal lookup
  fails, and the normal lookup finds what the object and its class define: the instance
  attribute \<open>_value\<close>, the methods \<open>value\<close>, \<open>value_of\<close> and \<open>to_string\<close> of
  the class, and the special attributes (\<open>__init__\<close>, \<open>__getattr__\<close> and those every
  object has, such as \<open>__class__\<close>). Which special names exist depends on the
  interpreter, so they are a parameter, \<open>special\<close>. Every other name goes to
  \<open>Chain_getattr\<close>, which returns a new wrapper (a pending builder) or raises.
\<close>

datatype 'v found = Field "'v slot" | BoundMethod string | SpecialAttribute | Builder addr

definition Chain_methods :: "string list" where
  "Chain_methods = [''value'', ''value_of'', ''to_string'']"

definition own_attribute :: "(string \<Rightarrow> bool) \<Rightarrow> string \<Rightarrow> bool" where
  "own_attribute special attr \<longleftrightarrow> attr = ''_value'' \<or> attr \<in> set Chain_methods \<or> special attr"

definition Chain_attribute ::
  "(string \<Rightarrow> bool) \<Rightarrow> (string \<Rightarrow> 'v attribute option) \<Rightarrow> addr \<Rightarrow> string \<Rightarrow> 'v heap
     \<Rightarrow> ((exc + 'v found) \<times> 'v heap) option" where
  "Chain_attribute special pyd self attr h =
     (case lookup (chains h) self of
        None \<Rightarrow> None
      | Some s \<Rightarrow>
          if attr = ''_value'' then Some (Inr (Field s), h)
          else if attr \<in> set Chain_methods then Some (Inr (BoundMethod attr), h)
          else if special attr then Some (Inr SpecialAttribute, h)
          else (case Chain_getattr pyd self attr h of
                  None \<Rightarrow> None
                | Some (Inl e, h') \<Rightarrow> Some (Inl e, h')
                | Some (Inr w, h') \<Rightarrow> Some (Inr (Builder w), h')))"




subsection \<open>A registry\<close>

text \<open>
  Modelled from the spec: \<open>pydash.add\<close>, \<open>pydash.multiply\<close> and \<open>pydash.to_string\<close>
  (the modules \<open>numerical\<close> and \<open>objects\<close> are not among the sources; \<open>__init__.py\<close>
  exports the three names), the registry functions of the examples, on integers and
  strings. \<open>add\<close> is \<open>+\<close> and \<open>multiply\<close> is \<open>*\<close> of Python on these values;
  \<open>to_string\<close> is the decimal text of an integer and leaves a string as it is. Each
  takes the chained value first; a call with other arguments is a \<open>TypeError\<close>. The
  registry \<open>registry\<close> binds these three names to callables and \<open>__version__\<close> (a
  string in \<open>__init__.py\<close>) to an attribute that is not callable.
\<close>

datatype val = IntV int | StrV string

fun digits :: "nat \<Rightarrow> string" where
  "digits n = (if n < 10 then [char_of (48 + n)] else digits (n div 10) @ [char_of (48 + n mod 10)])"

declare digits.simps [simp del]

definition str_int :: "int \<Rightarrow> string" where
  "str_int i = (if i < 0 then ''-'' @ digits (nat (- i)) else digits (nat i))"

definition add :: "val callable" where
  "add a bs k =
     (case (a, bs, k) of
        (IntV x, [IntV y], []) \<Rightarrow> Inr (IntV (x + y))
      | (StrV x, [StrV y], []) \<Rightarrow> Inr (StrV (x @ y))
      | _ \<Rightarrow> Inl (TypeError ''add()''))"

definition multiply :: "val callable" where
  "multiply a bs k =
     (case (a, bs, k) of
        (IntV x, [IntV y], []) \<Rightarrow> Inr (IntV (x * y))
      | (StrV x, [IntV y], []) \<Rightarrow> Inr (StrV (concat (replicate (nat y) x)))
      | (IntV x, [StrV y], []) \<Rightarrow> Inr (StrV (concat (replicate (nat x) y)))
      | _ \<Rightarrow> Inl (TypeError ''multiply()''))"

definition to_string :: "val callable" where
  "to_string a bs k =
     (case (a, bs, k) of
        (IntV x, [], []) \<Rightarrow> Inr (StrV (str_int x))
      | (StrV x, [], []) \<Rightarrow> Inr (StrV x)
      | _ \<Rightarrow> Inl (TypeError ''to_string()''))"

definition registry :: "string \<Rightarrow> val attribute option" where
  "registry name =
     (if name = ''add'' then Some (Callable add)
      else if name = ''multiply'' then Some (Callable multiply)
      else if name = ''to_string'' then Some (Callable to_string)
      else if name = ''__version__'' then Some NonCallable
      else None)"

text \<open>
  The special names of the examples: the ones the class defines and three of those every
  object has.
\<close>

definition dunder :: "string \<Rightarrow> bool" where
  "dunder name \<longleftrightarrow>
     name \<in> set [''__init__'', ''__getattr__'', ''__class__'', ''__dict__'', ''__doc__'']"

subsection \<open>Chain expressions and their eager counterpart\<close>

text \<open>
  An operation is a name with its captured arguments. \<open>chained\<close> evaluates
  \<open>c.name\<^sub>1(args\<^sub>1).name\<^sub>2(args\<^sub>2)\<dots>\<close> on the chain \<open>c\<close>, left to right: each step is an
  attribute access (\<open>Chain_attribute\<close>) followed by a call of what it returned. A
  builder, called, gives the next chain (\<open>ChainWrapper_call\<close>), and so does the
  wrapper that \<open>_value\<close> holds. A method of \<open>Chain\<close>, called, finalizes the chain at
  once and gives a plain value, which ends the expression. An exception ends the
  expression too. The result \<open>None\<close> stands for what \<open>chaining.py\<close> does not define:
  a call of a plain value or of a special attribute, and an attribute access on a plain
  value. \<open>chain_expr\<close> is the same expression on \<open>chain(v)\<close>.
\<close>

type_synonym 'v operation = "string \<times> 'v list \<times> 'v kwargs"






text \<open>
  A name is registered when the registry binds it to a callable. \<open>links\<close> is the list of
  wrappers a chain expression allocates, starting at address \<open>n\<close> over the slot \<open>s\<close>:
  each wrapper holds its operation and refers to the wrapper before it; \<open>final_slot\<close>
  is the slot of the chain the expression returns.
\<close>

definition registered :: "(string \<Rightarrow> 'v attribute option) \<Rightarrow> string \<Rightarrow> bool" where
  "registered pyd name = (case pyd name of Some (Callable m) \<Rightarrow> True | _ \<Rightarrow> False)"

definition the_callable :: "(string \<Rightarrow> 'v attribute option) \<Rightarrow> string \<Rightarrow> 'v callable" where
  "the_callable pyd name =
     (case pyd name of
        Some (Callable m) \<Rightarrow> m
      | _ \<Rightarrow> (\<lambda>v a k. Inl (InvalidMethod (''Invalid pydash method: '' @ name))))"

fun links :: "(string \<Rightarrow> 'v attribute option) \<Rightarrow> nat \<Rightarrow> 'v slot \<Rightarrow> 'v operation list \<Rightarrow> 'v ChainWrapper list" where
  "links pyd n s [] = []"
| "links pyd n s ((name, a, k) # ops) =
     \<lparr>cw_value = s, cw_method = the_callable pyd name, args = a, kargs = k\<rparr> # links pyd (Suc n) (Wrapper n) ops"




section \<open>\<open>attempt\<close>, \<open>memoize\<close> and \<open>retry\<close> (\<open>utilities.py\<close>)\<close>

subsection \<open>\<open>attempt\<close>\<close>




definition KeyboardInterrupt :: "string \<Rightarrow> exc" where
  "KeyboardInterrupt m = Exc [''KeyboardInterrupt'', ''BaseException''] m"



subsection \<open>\<open>memoize\<close>\<close>

text \<open>
  \<open>f"{args}{kwargs}"\<close> is \<open>str(args) + str(kwargs)\<close>, the text of a tuple followed by
  the text of a dictionary. Both are built from the \<open>repr\<close> of their elements; \<open>repr\<close>
  is a builtin that asks each object for its own text, so the texts of values
  (\<open>repr\<close>) and of the string keys (\<open>repr_key\<close>) are parameters here. A tuple of one
  element is written with a trailing comma.
\<close>

fun join :: "string \<Rightarrow> string list \<Rightarrow> string" where
  "join sep [] = []"
| "join sep [x] = x"
| "join sep (x # y # ys) = x @ sep @ join sep (y # ys)"

definition str_tuple :: "('v \<Rightarrow> string) \<Rightarrow> 'v list \<Rightarrow> string" where
  "str_tuple repr a =
     (case a of
        [x] \<Rightarrow> ''('' @ repr x @ '',)''
      | _ \<Rightarrow> ''('' @ join '', '' (map repr a) @ '')'')"

definition str_dict :: "(string \<Rightarrow> string) \<Rightarrow> ('v \<Rightarrow> string) \<Rightarrow> 'v kwargs \<Rightarrow> string" where
  "str_dict repr_key repr k =
     ''{'' @ join '', '' (map (\<lambda>(n, v). repr_key n @ '': '' @ repr v) k) @ ''}''"

text \<open>
  The memoized function owns a cache, a dictionary from keys to results. Without a
  resolver the key is the string above; a resolver returns a key of its own. The state
  also logs the calls of \<open>func\<close>, and holds the state \<open>func\<close> and the resolver act on.
\<close>

datatype 'k cache_key = Default string | Resolved 'k

record ('v, 'r, 'k, 's) memo =
  cache :: "'k cache_key \<rightharpoonup> 'r"
  func_calls :: "('v list \<times> 'v kwargs) list"
  user :: 's

definition memoize :: "'s \<Rightarrow> ('v, 'r, 'k, 's) memo" where
  "memoize s = \<lparr>cache = Map.empty, func_calls = [], user = s\<rparr>"

definition memoized ::
  "(string \<Rightarrow> string) \<Rightarrow> ('v \<Rightarrow> string)
     \<Rightarrow> ('v list \<Rightarrow> 'v kwargs \<Rightarrow> 's \<Rightarrow> (exc + 'r) \<times> 's)
     \<Rightarrow> ('v list \<Rightarrow> 'v kwargs \<Rightarrow> 's \<Rightarrow> (exc + 'k) \<times> 's) option
     \<Rightarrow> 'v list \<Rightarrow> 'v kwargs \<Rightarrow> ('v, 'r, 'k, 's) memo \<Rightarrow> (exc + 'r) \<times> ('v, 'r, 'k, 's) memo" where
  "memoized repr_key repr func resolver a k m =
     (case (case resolver of
              Some res \<Rightarrow>
                (case res a k (user m) of
                   (Inl e, s) \<Rightarrow> (Inl e, m\<lparr>user := s\<rparr>)
                 | (Inr x, s) \<Rightarrow> (Inr (Resolved x), m\<lparr>user := s\<rparr>))
            | None \<Rightarrow> (Inr (Default (str_tuple repr a @ str_dict repr_key repr k)), m)) of
        (Inl e, m1) \<Rightarrow> (Inl e, m1)
      | (Inr ck, m1) \<Rightarrow>
          (case cache m1 ck of
             Some r \<Rightarrow> (Inr r, m1)
           | None \<Rightarrow>
               (case func a k (user m1) of
                  (Inl e, s) \<Rightarrow> (Inl e, m1\<lparr>func_calls := func_calls m1 @ [(a, k)], user := s\<rparr>)
                | (Inr r, s) \<Rightarrow>
                    (Inr r, m1\<lparr>cache := (cache m1)(ck \<mapsto> r),
                               func_calls := func_calls m1 @ [(a, k)], user := s\<rparr>))))"

text \<open>
  Values to run the memoized function on: \<open>None\<close>, integers, whose \<open>repr\<close> is their
  decimal text, and instances of a user class whose \<open>__repr__\<close> returns a text chosen at
  construction. The text of a keyword is the keyword in quotes (it is an identifier).
\<close>

datatype obj = NoneValue | Number int | Instance (ident: nat) (text_of: string)

definition repr_obj :: "obj \<Rightarrow> string" where
  "repr_obj v =
     (case v of
        NoneValue \<Rightarrow> ''None''
      | Number i \<Rightarrow> str_int i
      | Instance n t \<Rightarrow> t)"

definition repr_keyword :: "string \<Rightarrow> string" where
  "repr_keyword n = [CHR 0x27] @ n @ [CHR 0x27]"

text \<open>
  \<open>identity(arg=None, *args)\<close> returns \<open>arg\<close>: the first positional argument, or the
  keyword \<open>arg\<close> when there is no positional argument, or \<open>None\<close> when there is
  neither. The keywords of a call are distinct. Python raises a \<open>TypeError\<close> for a
  keyword other than \<open>arg\<close>, and for the keyword \<open>arg\<close> beside a positional
  argument.
\<close>

definition identity :: "obj list \<Rightarrow> obj kwargs \<Rightarrow> unit \<Rightarrow> (exc + obj) \<times> unit" where
  "identity a k s =
     (case (a, k) of
        ([], []) \<Rightarrow> (Inr NoneValue, s)
      | (x # xs, []) \<Rightarrow> (Inr x, s)
      | ([], [(n, v)]) \<Rightarrow>
          if n = ''arg'' then (Inr v, s)
          else (Inl (TypeError (''identity() got an unexpected keyword argument '' @ n)), s)
      | (x # xs, [(n, v)]) \<Rightarrow>
          if n = ''arg'' then (Inl (TypeError ''identity() got multiple values for argument arg''), s)
          else (Inl (TypeError (''identity() got an unexpected keyword argument '' @ n)), s)
      | _ \<Rightarrow> (Inl (TypeError ''identity() got an unexpected keyword argument''), s))"

subsection \<open>\<open>retry\<close>\<close>

text \<open>
  The arguments of \<open>retry\<close>. The delays are real numbers. \<open>jitter\<close> is a number or a
  tuple of numbers. A class is given by its name followed by the names of its bases;
  \<open>exceptions\<close> is a tuple of classes. \<open>on_exception\<close> is \<open>None\<close> or an object.
  \<open>retry\<close> tests the object for truth (\<open>if on_exception\<close>) and with \<open>callable\<close>, so the
  object carries both answers, \<open>truthy\<close> and \<open>is_callable\<close>; an object is true
  unless its class says otherwise (\<open>__bool__\<close>, \<open>__len__\<close>). Called with a list of
  arguments, it acts on the state and returns (its result is dropped) or raises;
  \<open>accepts\<close> is the number of positional arguments it takes.
\<close>

datatype jitter = JNumber real | JTuple "real list"

type_synonym pyclass = "string list"

datatype obs_arg = ExcArg exc | IntArg int

record 's observer =
  truthy :: bool
  is_callable :: bool
  accepts :: nat
  run :: "obs_arg list \<Rightarrow> 's \<Rightarrow> (exc + unit) \<times> 's"

record 's retry_args =
  attempts :: int
  delay :: real
  max_delay :: real
  scale :: real
  jitter :: jitter
  exceptions :: "pyclass list"
  on_exception :: "'s observer option"

definition class_name :: "pyclass \<Rightarrow> string" where
  "class_name c = (case c of [] \<Rightarrow> [] | n # bases \<Rightarrow> n)"

definition issubclass :: "pyclass \<Rightarrow> string \<Rightarrow> bool" where
  "issubclass c b = (b \<in> set c)"

definition Exception :: pyclass where
  "Exception = [''Exception'', ''BaseException'']"

text \<open>
  The defaults of the signature, with the given \<open>on_exception\<close>.
\<close>

definition retry_defaults :: "'s observer option \<Rightarrow> 's retry_args" where
  "retry_defaults ob =
     \<lparr>attempts = 3, delay = 0.5, max_delay = 150, scale = 2, jitter = JNumber 0,
      exceptions = [Exception], on_exception = ob\<rparr>"

text \<open>
  What happens during a call of the decorated function is logged in order: every call
  of \<open>func\<close> with its outcome, every call of the observer with the arguments it
  received, every \<open>time.sleep\<close> with its duration, every draw of \<open>random\<close> with its
  bounds. The numbers \<open>random\<close> draws come from outside: the world holds the sequence
  of the draws to come.
\<close>

datatype 'a event =
    Invoked "exc + 'a"
  | Observed "obs_arg list"
  | Slept real
  | Drew real real

record ('s, 'a) world =
  state :: 's
  trace :: "'a event list"
  entropy :: "nat \<Rightarrow> real"
  drawn :: nat

definition call_func :: "('s \<Rightarrow> (exc + 'a) \<times> 's) \<Rightarrow> ('s, 'a) world \<Rightarrow> (exc + 'a) \<times> ('s, 'a) world" where
  "call_func func w =
     (case func (state w) of
        (r, s) \<Rightarrow> (r, w\<lparr>state := s, trace := trace w @ [Invoked r]\<rparr>))"

text \<open>
  Modelled from the spec: \<open>helpers.getargcount\<close> and \<open>helpers.callit\<close> (the module
  \<open>helpers\<close> is not among the sources). \<open>getargcount\<close> is the number of arguments the
  callable accepts, at most \<open>maxargs\<close>; \<open>callit\<close> invokes the callable once, with the
  leading \<open>argcount\<close> of the arguments it is given.
\<close>

definition getargcount :: "'s observer \<Rightarrow> nat \<Rightarrow> nat" where
  "getargcount ob maxargs = min (accepts ob) maxargs"

definition callit ::
  "'s observer \<Rightarrow> obs_arg list \<Rightarrow> nat \<Rightarrow> ('s, 'a) world \<Rightarrow> (exc + unit) \<times> ('s, 'a) world" where
  "callit ob as argcount w =
     (case run ob (take (min (length as) argcount) as) (state w) of
        (r, s) \<Rightarrow>
          (r, w\<lparr>state := s,
                trace := trace w @ [Observed (take (min (length as) argcount) as)]\<rparr>))"

definition random :: "real \<Rightarrow> real \<Rightarrow> ('s, 'a) world \<Rightarrow> real \<times> ('s, 'a) world" where
  "random start stop w =
     (entropy w (drawn w), w\<lparr>trace := trace w @ [Drew start stop], drawn := Suc (drawn w)\<rparr>)"

definition sleep :: "real \<Rightarrow> ('s, 'a) world \<Rightarrow> ('s, 'a) world" where
  "sleep t w = w\<lparr>trace := trace w @ [Slept t]\<rparr>"

text \<open>
  The body of \<open>decorated\<close>: the loop over \<open>range(1, attempts + 1)\<close>, here over the list
  of the attempts still to make. \<open>jit\<close> is \<open>jitter\<close> as \<open>retry\<close> has normalised it
  (\<open>None\<close> when it is \<open>0\<close>, which \<open>if jitter\<close> takes for false) and \<open>argcount\<close> is
  \<open>on_exc_argcount\<close>. The observer is called only when \<open>if on_exception\<close> holds: when
  it is there and true. An exception that is not an instance of one of \<open>exceptions\<close>
  propagates, and so does one raised by the observer. A loop that ends without
  returning makes the function return \<open>None\<close>. The loop variable \<open>attempt\<close> is
  \<open>attempt'\<close> here.
\<close>

fun attempts_loop ::
  "'s retry_args \<Rightarrow> (real \<times> real) option \<Rightarrow> nat \<Rightarrow> ('s \<Rightarrow> (exc + 'a) \<times> 's)
     \<Rightarrow> int list \<Rightarrow> real \<Rightarrow> ('s, 'a) world \<Rightarrow> (exc + 'a option) \<times> ('s, 'a) world" where
  "attempts_loop cfg jit argcount func [] delay_time w = (Inr None, w)"
| "attempts_loop cfg jit argcount func (attempt' # rest) delay_time w =
     (case call_func func w of
        (Inr r, w1) \<Rightarrow> (Inr (Some r), w1)
      | (Inl exc, w1) \<Rightarrow>
          if \<not> caught_by (map class_name (exceptions cfg)) exc then (Inl exc, w1)
          else
            (case (case on_exception cfg of
                     Some ob \<Rightarrow>
                       if truthy ob then callit ob [ExcArg exc, IntArg attempt'] argcount w1
                       else (Inr (), w1)
                   | None \<Rightarrow> (Inr (), w1)) of
               (Inl e, w2) \<Rightarrow> (Inl e, w2)
             | (Inr u, w2) \<Rightarrow>
                 if attempt' = attempts cfg then (Inl exc, w2)
                 else
                   (case (case jit of
                            Some (lo, hi) \<Rightarrow>
                              (case random lo hi w2 of (x, w3) \<Rightarrow> (delay_time + max 0 x, w3))
                          | None \<Rightarrow> (delay_time, w2)) of
                      (dt, w3) \<Rightarrow>
                        if dt < 0 then attempts_loop cfg jit argcount func rest dt w3
                        else
                          (let dt' = (if max_delay cfg \<noteq> 0 then min dt (max_delay cfg) else dt)
                           in attempts_loop cfg jit argcount func rest (dt' * scale cfg)
                                (sleep dt' w3)))))"

definition decorated ::
  "'s retry_args \<Rightarrow> (real \<times> real) option \<Rightarrow> nat \<Rightarrow> ('s \<Rightarrow> (exc + 'a) \<times> 's)
     \<Rightarrow> ('s, 'a) world \<Rightarrow> (exc + 'a option) \<times> ('s, 'a) world" where
  "decorated cfg jit argcount func w =
     attempts_loop cfg jit argcount func [1 .. attempts cfg] (delay cfg) w"

text \<open>
  \<open>retry\<close> checks its arguments, in the order of the source, and returns the decorator.
  The types of the record already make \<open>attempts\<close> an integer and the delays numbers.
  \<open>on_exc_argcount\<close> is \<open>None\<close> when \<open>on_exception\<close> is absent or false, and is not
  read then; it is \<open>0\<close> here.
\<close>

definition retry ::
  "'s retry_args \<Rightarrow>
     exc + (('s \<Rightarrow> (exc + 'a) \<times> 's) \<Rightarrow> ('s, 'a) world \<Rightarrow> (exc + 'a option) \<times> ('s, 'a) world)" where
  "retry cfg =
     (if attempts cfg \<le> 0 then Inl (ValueError ''attempts must be an integer greater than 0'')
      else if delay cfg < 0 then
        Inl (ValueError ''delay must be a number greater than or equal to 0'')
      else if max_delay cfg < 0 then
        Inl (ValueError ''scale must be a number greater than or equal to 0'')
      else if scale cfg \<le> 0 then Inl (ValueError ''scale must be a number greater than 0'')
      else if (case jitter cfg of JNumber j \<Rightarrow> j < 0 | JTuple t \<Rightarrow> length t \<noteq> 2) then
        Inl (ValueError ''jitter must be a number greater than 0 or a 2-item tuple of numbers'')
      else if \<not> list_all (\<lambda>c. issubclass c ''Exception'') (exceptions cfg) then
        Inl (TypeError ''exceptions must be a tuple of Exception types'')
      else if (case on_exception cfg of Some ob \<Rightarrow> truthy ob \<and> \<not> is_callable ob | None \<Rightarrow> False) then
        Inl (TypeError ''on_exception must be a callable'')
      else
        Inr (decorated cfg
               (case jitter cfg of
                  JNumber j \<Rightarrow> if j \<noteq> 0 then Some (0, j) else None
                | JTuple t \<Rightarrow> Some (t ! 0, t ! 1))
               (case on_exception cfg of
                  Some ob \<Rightarrow> if truthy ob then getargcount ob 2 else 0
                | None \<Rightarrow> 0)))"

text \<open>
  Notions to state what a call of the decorated function did: the observer the loop
  calls (\<open>on_exception\<close> when it is there and true), the calls of \<open>func\<close> and of the
  observer among the events, and the events that \<open>n\<close> failed attempts with the
  exceptions \<open>excs\<close> leave, sleeps and draws apart.
\<close>

definition observing :: "'s retry_args \<Rightarrow> 's observer option" where
  "observing cfg =
     (case on_exception cfg of
        Some ob \<Rightarrow> if truthy ob then Some ob else None
      | None \<Rightarrow> None)"

fun is_Invoked :: "'a event \<Rightarrow> bool" where
  "is_Invoked (Invoked r) = True"
| "is_Invoked e = False"

fun is_Observed :: "'a event \<Rightarrow> bool" where
  "is_Observed (Observed as) = True"
| "is_Observed e = False"

definition calls_of :: "'a event list \<Rightarrow> 'a event list" where
  "calls_of es = filter (\<lambda>e. is_Invoked e \<or> is_Observed e) es"

definition failed_attempt :: "'s observer option \<Rightarrow> exc \<Rightarrow> int \<Rightarrow> 'a event list" where
  "failed_attempt ob e i =
     Invoked (Inl e) #
     (case ob of
        Some f \<Rightarrow> [Observed (take (min 2 (accepts f)) [ExcArg e, IntArg i])]
      | None \<Rightarrow> [])"

fun failed_attempts :: "'s observer option \<Rightarrow> int \<Rightarrow> exc list \<Rightarrow> 'a event list" where
  "failed_attempts ob i [] = []"
| "failed_attempts ob i (e # es) = failed_attempt ob e i @ failed_attempts ob (i + 1) es"

text \<open>
  A function to retry that raises a \<open>ValueError\<close> on every call and counts its calls in
  the state (the message is the count before the call), an observer of two
  arguments that adds 100 to the state, an observer that raises, and a callable
  observer that is false.
\<close>

definition always_fails :: "nat \<Rightarrow> (exc + int) \<times> nat" where
  "always_fails s = (Inl (ValueError (digits s)), Suc s)"

definition counting_observer :: "nat observer" where
  "counting_observer =
     \<lparr>truthy = True, is_callable = True, accepts = 2, run = (\<lambda>as s. (Inr (), s + 100))\<rparr>"

definition RuntimeError :: "string \<Rightarrow> exc" where
  "RuntimeError m = Exc [''RuntimeError'', ''Exception'', ''BaseException''] m"

definition raising_observer :: "nat observer" where
  "raising_observer =
     \<lparr>truthy = True, is_callable = True, accepts = 2,
      run = (\<lambda>as s. (Inl (RuntimeError ''observer''), s))\<rparr>"

definition falsy_observer :: "nat observer" where
  "falsy_observer =
     \<lparr>truthy = False, is_callable = True, accepts = 2, run = (\<lambda>as s. (Inr (), s + 100))\<rparr>"

definition initial_world :: "(nat, int) world" where
  "initial_world = \<lparr>state = 0, trace = [], entropy = (\<lambda>n. 0), drawn = 0\<rparr>"

section \<open>Lemmas about the tokenizer\<close>

lemma skip_pairs_nonbackslash: "c \<noteq> CHR 0x5C \<Longrightarrow> skip_pairs (c # s) = c # s"
  by (cases s) auto

lemma skip_pairs_append:
  assumes "w \<noteq> []" "hd w \<noteq> CHR 0x5C"
  shows "skip_pairs (s @ w) = skip_pairs s @ w"
proof -
  obtain x w' where w: "w = x # w'" and x: "x \<noteq> CHR 0x5C"
    using assms by (cases w) auto
  show ?thesis
    unfolding w using x
    by (induction s rule: skip_pairs.induct) (auto simp: skip_pairs_nonbackslash)
qed

lemma match_dot_append:
  assumes "w \<noteq> []" "hd w \<noteq> CHR 0x5C" "hd w \<noteq> CHR ''.''"
  shows "match_dot prev (s @ w) = match_dot prev s"
proof (cases "skip_pairs s")
  case Nil
  with assms show ?thesis
    by (cases w) (auto simp: match_dot_def skip_pairs_append)
next
  case (Cons c r)
  with assms show ?thesis
    by (auto simp: match_dot_def skip_pairs_append)
qed

lemma takeWhile_append_stop: "\<not> P x \<Longrightarrow> takeWhile P (t @ x # w) = takeWhile P t"
  by (induction t) auto

lemma dropWhile_append_stop: "\<not> P x \<Longrightarrow> dropWhile P (t @ x # w) = dropWhile P t @ x # w"
  by (induction t) auto

lemma not_digit_bracket: "\<not> is_digit CHR ''[''" "\<not> is_digit CHR '']''" "\<not> is_digit CHR ''-''"
  by (simp_all add: is_digit_def)

lemma match_index_append_bracket:
  assumes "s \<noteq> []"
  shows "match_index (s @ CHR ''['' # w) = match_index s"
proof (cases s)
  case Nil
  with assms show ?thesis by simp
next
  case (Cons c r)
  define m where "m = (case r of [] \<Rightarrow> 0 | d # _ \<Rightarrow> if d = CHR ''-'' then 1 else (0::nat))"
  have m': "(case r @ CHR ''['' # w of [] \<Rightarrow> 0 | d # _ \<Rightarrow> if d = CHR ''-'' then 1 else (0::nat)) = m"
    unfolding m_def by (cases r) auto
  have ml: "m \<le> length r" unfolding m_def by (cases r) auto
  have dr: "drop m (r @ CHR ''['' # w) = drop m r @ CHR ''['' # w"
    using ml by simp
  have "take 1 (xs @ CHR ''['' # w) = '']'' \<longleftrightarrow> take 1 xs = '']''" for xs
    by (cases xs) auto
  then have t1: "take 1 (dropWhile is_digit (drop m r) @ CHR ''['' # w) = '']''
            \<longleftrightarrow> take 1 (dropWhile is_digit (drop m r)) = '']''"
    by blast
  have tw: "takeWhile is_digit (drop m r @ CHR ''['' # w) = takeWhile is_digit (drop m r)"
    by (rule takeWhile_append_stop) (rule not_digit_bracket)
  have dw: "dropWhile is_digit (drop m r @ CHR ''['' # w) = dropWhile is_digit (drop m r) @ CHR ''['' # w"
    by (rule dropWhile_append_stop) (rule not_digit_bracket)
  show ?thesis
    unfolding Cons match_index_def append_Cons list.case m' m_def [symmetric] Let_def dr tw dw t1
    by simp
qed

lemma match_delim_append_bracket:
  assumes "s \<noteq> []"
  shows "match_delim prev (s @ CHR ''['' # w) = match_delim prev s"
proof -
  have 1: "match_dot prev (s @ CHR ''['' # w) = match_dot prev s"
    by (rule match_dot_append) auto
  show ?thesis
    unfolding match_delim_def 1 match_index_append_bracket [OF assms]
    by (auto split: option.splits dest: match_index_bounds)
qed

lemma match_delim_prev:
  "prev \<noteq> Some (CHR 0x5C) \<Longrightarrow> prev' \<noteq> Some (CHR 0x5C) \<Longrightarrow> match_delim prev s = match_delim prev' s"
  by (simp add: match_delim_def match_dot_def)

lemma split_from_prev:
  "prev \<noteq> Some (CHR 0x5C) \<Longrightarrow> prev' \<noteq> Some (CHR 0x5C) \<Longrightarrow> split_from prev acc s = split_from prev' acc s"
  by (cases s) (auto simp: match_delim_prev [of prev prev'])

lemma match_index_index_str:
  assumes "ds \<noteq> []" "list_all is_digit ds"
  shows "match_index (index_str neg ds @ v) = Some (length (index_str neg ds))"
proof -
  obtain d ds' where ds: "ds = d # ds'" using assms(1) by (cases ds) auto
  have dd: "is_digit d" using assms(2) ds by simp
  then have dm: "d \<noteq> CHR ''-''" using not_digit_bracket(3) by auto
  have tw: "takeWhile is_digit (ds @ CHR '']'' # v) = ds"
    using assms(2) by (simp add: takeWhile_append_stop not_digit_bracket list_all_iff)
  have dw: "dropWhile is_digit (ds @ CHR '']'' # v) = CHR '']'' # v"
    using assms(2) by (simp add: dropWhile_append_stop not_digit_bracket list_all_iff)
  show ?thesis
  proof (cases neg)
    case True
    then show ?thesis
      using tw dw assms(1) by (simp add: match_index_def index_str_def)
  next
    case False
    have "(case ds @ CHR '']'' # v of [] \<Rightarrow> 0 | d # _ \<Rightarrow> if d = CHR ''-'' then 1 else (0::nat)) = 0"
      using dm ds by simp
    then show ?thesis
      using False tw dw assms(1) by (simp add: match_index_def index_str_def)
  qed
qed

lemma match_dot_bracket: "match_dot prev (CHR ''['' # w) = None"
  by (simp add: match_dot_def skip_pairs_nonbackslash)

lemma split_from_index_str:
  assumes "ds \<noteq> []" "list_all is_digit ds"
  shows "split_from prev acc (index_str neg ds @ v)
         = Some acc # Some (index_str neg ds) # split_from None [] v"
proof -
  obtain w where w: "index_str neg ds @ v = CHR ''['' # w" by (simp add: index_str_def)
  have mi: "match_index (CHR ''['' # w) = Some (length (index_str neg ds))"
    using match_index_index_str [OF assms, of neg v] w by simp
  have tk: "take (length (index_str neg ds)) (CHR ''['' # w) = index_str neg ds"
    by (simp add: w [symmetric])
  have dr: "drop (length (index_str neg ds)) (CHR ''['' # w) = v"
    by (simp add: w [symmetric])
  have md: "match_delim prev (CHR ''['' # w) = Some (length (index_str neg ds), Some (index_str neg ds))"
    using tk by (simp add: match_delim_def match_dot_bracket mi)
  have l: "last (index_str neg ds) = CHR '']''"
    by (simp add: index_str_def)
  have "split_from prev acc (CHR ''['' # w) =
    Some acc # Some (index_str neg ds) # split_from (Some (CHR '']'')) [] v"
    unfolding split_from.simps md option.case prod.case tk dr l ..
  then show ?thesis
    using split_from_prev [of "Some (CHR '']'')" None "[]" v] w by simp
qed

lemma drop_within: "n \<le> length xs \<Longrightarrow> drop n (xs @ ys) = drop n xs @ ys"
  by simp

lemma take_within: "n \<le> length xs \<Longrightarrow> take n (xs @ ys) = take n xs"
  by simp

lemma split_from_append_index:
  assumes "ds \<noteq> []" "list_all is_digit ds"
  shows "split_from prev acc (u @ index_str neg ds @ v)
         = split_from prev acc u @ Some (index_str neg ds) # split_from None [] v"
proof (induction prev acc u rule: split_from.induct)
  case (1 prev acc)
  show ?case using split_from_index_str [OF assms] by simp
next
  case (2 prev acc c cs)
  obtain w where w: "index_str neg ds @ v = CHR ''['' # w" by (simp add: index_str_def)
  have md: "match_delim prev ((c # cs) @ index_str neg ds @ v) = match_delim prev (c # cs)"
    unfolding w by (rule match_delim_append_bracket) simp
  show ?case
  proof (cases "match_delim prev (c # cs)")
    case None
    with 2 md show ?thesis by simp
  next
    case (Some a)
    obtain n g where a: "a = (n, g)" by (cases a)
    have n: "n \<le> length (c # cs)" using match_delim_bounds Some a by blast
    have ih: "split_from (Some (last (take n (c # cs)))) [] (drop n (c # cs) @ index_str neg ds @ v)
          = split_from (Some (last (take n (c # cs)))) [] (drop n (c # cs))
            @ Some (index_str neg ds) # split_from None [] v"
      using "2.IH"(2) [OF Some a [symmetric]] .
    have dr: "drop n ((c # cs) @ index_str neg ds @ v) = drop n (c # cs) @ index_str neg ds @ v"
      using n by (rule drop_within)
    have tk: "take n ((c # cs) @ index_str neg ds @ v) = take n (c # cs)"
      using n by (rule take_within)
    have "split_from prev acc ((c # cs) @ index_str neg ds @ v)
          = Some acc # g # split_from (Some (last (take n (c # cs)))) [] (drop n (c # cs) @ index_str neg ds @ v)"
      using md Some a dr tk by (simp del: drop_Suc_Cons take_Suc_Cons)
    moreover have "split_from prev acc (c # cs)
          = Some acc # g # split_from (Some (last (take n (c # cs)))) [] (drop n (c # cs))"
      using Some a by simp
    ultimately show ?thesis using ih by simp
  qed
qed

lemma takeWhile_append_keep: "dropWhile P t \<noteq> [] \<Longrightarrow> takeWhile P (t @ r) = takeWhile P t"
  by (induction t) auto

lemma dropWhile_append_keep: "dropWhile P t \<noteq> [] \<Longrightarrow> dropWhile P (t @ r) = dropWhile P t @ r"
  by (induction t) auto

lemma match_index_prefix:
  assumes "match_index p = Some n"
  shows "match_index (p @ r) = Some n"
proof -
  from assms obtain r0 m where p: "p = CHR ''['' # r0"
    and m: "m = (if take 1 r0 = ''-'' then 1 else (0::nat))"
    and tw: "takeWhile is_digit (drop m r0) \<noteq> []"
    and d: "take 1 (dropWhile is_digit (drop m r0)) = '']''"
    and n: "n = 1 + m + length (takeWhile is_digit (drop m r0)) + 1"
    unfolding match_index_Some by blast
  have r0: "r0 \<noteq> []" using tw by auto
  have dn: "dropWhile is_digit (drop m r0) \<noteq> []"
  proof
    assume "dropWhile is_digit (drop m r0) = []"
    with d show False by simp
  qed
  have ml: "m \<le> length r0" unfolding m using r0 by (cases r0) auto
  have m': "(if take 1 (r0 @ r) = ''-'' then 1 else (0::nat)) = m"
    unfolding m using r0 by (cases r0) auto
  have dr: "drop m (r0 @ r) = drop m r0 @ r" using ml by simp
  have t1: "take 1 (dropWhile is_digit (drop m r0) @ r) = '']''"
    using d dn by (cases "dropWhile is_digit (drop m r0)") simp_all
  have "match_index (CHR ''['' # (r0 @ r)) = Some n"
    unfolding match_index_Some
  proof (intro exI conjI)
    show "CHR ''['' # (r0 @ r) = CHR ''['' # (r0 @ r)" ..
    show "m = (if take 1 (r0 @ r) = ''-'' then 1 else 0)" using m' by simp
    show "takeWhile is_digit (drop m (r0 @ r)) \<noteq> []"
      unfolding dr takeWhile_append_keep [OF dn] by (rule tw)
    show "take 1 (dropWhile is_digit (drop m (r0 @ r))) = '']''"
      unfolding dr dropWhile_append_keep [OF dn] by (rule t1)
    show "n = 1 + m + length (takeWhile is_digit (drop m (r0 @ r))) + 1"
      unfolding dr takeWhile_append_keep [OF dn] by (rule n)
  qed
  then show ?thesis unfolding p by simp
qed

lemma match_index_full:
  assumes "match_index p = Some (length p)"
  shows "\<exists>neg ds. ds \<noteq> [] \<and> list_all is_digit ds \<and> p = index_str neg ds"
proof -
  from assms obtain r m where p: "p = CHR ''['' # r"
    and m: "m = (if take 1 r = ''-'' then 1 else (0::nat))"
    and tw: "takeWhile is_digit (drop m r) \<noteq> []"
    and d: "take 1 (dropWhile is_digit (drop m r)) = '']''"
    and n: "length p = 1 + m + length (takeWhile is_digit (drop m r)) + 1"
    unfolding match_index_Some by blast
  define ds where "ds = takeWhile is_digit (drop m r)"
  define rest where "rest = dropWhile is_digit (drop m r)"
  have split: "drop m r = ds @ rest" unfolding ds_def rest_def by simp
  have r0: "r \<noteq> []" using tw by auto
  have ml: "m \<le> length r" unfolding m using r0 by (cases r) auto
  have "length (drop m r) = length ds + 1" using n p ml unfolding ds_def by simp
  then have "length rest = 1" using split by simp
  with d have rest: "rest = '']''" unfolding rest_def [symmetric]
    by (cases rest) auto
  have tk: "take m r = (if m = 1 then ''-'' else [])"
    unfolding m using r0 by (cases r) auto
  have "r = take m r @ drop m r" by simp
  then have "p = index_str (m = 1) ds"
    unfolding p index_str_def using tk split rest by simp
  moreover have "list_all is_digit ds" unfolding ds_def list_all_iff
    by (auto dest: set_takeWhileD)
  moreover have "ds \<noteq> []" using tw ds_def by simp
  ultimately show ?thesis by blast
qed

lemma py_int_digits:
  assumes "ds \<noteq> []" "list_all is_digit ds"
  shows "py_int ((if neg then ''-'' else []) @ ds)
         = Inr (if neg then - int (decimal ds) else int (decimal ds))"
proof -
  obtain d ds' where ds: "ds = d # ds'" using assms(1) by (cases ds) auto
  have "is_digit d" using assms(2) ds by simp
  then have dm: "d \<noteq> CHR ''-''" using not_digit_bracket(3) by auto
  show ?thesis
  proof (cases neg)
    case True
    then show ?thesis using assms by (simp add: py_int_def)
  next
    case False
    then show ?thesis using assms dm ds by (simp add: py_int_def)
  qed
qed

lemma index_str_inner: "butlast (drop 1 (index_str neg ds)) = (if neg then ''-'' else []) @ ds"
  by (simp add: index_str_def butlast_append)

lemma path_token_index_str:
  assumes "ds \<noteq> []" "list_all is_digit ds"
  shows "path_token (index_str neg ds)
         = Inr (PathToken (PInt (if neg then - int (decimal ds) else int (decimal ds))) list_factory)"
proof -
  have "match_index (index_str neg ds) = Some (length (index_str neg ds))"
    using match_index_index_str [OF assms, of neg "[]"] by simp
  then have "RE_PATH_LIST_INDEX_match (index_str neg ds)"
    by (simp add: RE_PATH_LIST_INDEX_match_def)
  then show ?thesis
    unfolding path_token_def index_str_inner
    by (simp add: py_int_digits [OF assms])
qed

lemma str_replace_Nil_iff:
  "old \<noteq> [] \<Longrightarrow> new \<noteq> [] \<Longrightarrow> str_replace old new s = [] \<longleftrightarrow> s = []"
  by (cases s) auto

lemma unescape_path_key_Nil_iff: "unescape_path_key k = [] \<longleftrightarrow> k = []"
  by (simp add: unescape_path_key_def str_replace_Nil_iff)

lemma path_token_good:
  assumes "good_piece p" "p \<noteq> []"
  shows "\<exists>k f. path_token p = Inr (PathToken k f) \<and> k \<noteq> PStr []"
proof (cases "match_index p")
  case None
  then show ?thesis
    using assms(2)
    by (simp add: path_token_def RE_PATH_LIST_INDEX_match_def unescape_path_key_Nil_iff)
next
  case (Some n)
  with assms(1) have "match_index p = Some (length p)" by (simp add: good_piece_def)
  then obtain neg ds where "ds \<noteq> []" "list_all is_digit ds" "p = index_str neg ds"
    using match_index_full by blast
  then show ?thesis using path_token_index_str by simp
qed

lemma split_from_good:
  assumes "acc = [] \<or> match_index (acc @ s) = None"
  shows "\<forall>p \<in> set (filter_None (split_from prev acc s)). good_piece p"
  using assms
proof (induction prev acc s rule: split_from.induct)
  case (1 prev acc)
  then show ?case by (auto simp: good_piece_def)
next
  case (2 prev acc c cs)
  have acc: "acc \<noteq> [] \<Longrightarrow> good_piece acc"
  proof -
    assume "acc \<noteq> []"
    with 2(3) have none: "match_index (acc @ c # cs) = None" by simp
    have "match_index acc = None"
    proof (cases "match_index acc")
      case (Some n)
      then show ?thesis using match_index_prefix [OF Some, of "c # cs"] none by simp
    qed simp
    then show ?thesis by (simp add: good_piece_def)
  qed
  show ?case
  proof (cases "match_delim prev (c # cs)")
    case None
    then have mi: "match_index (c # cs) = None"
      by (simp add: match_delim_def split: option.splits)
    have "acc @ [c] = [] \<or> match_index ((acc @ [c]) @ cs) = None"
      using 2(3) mi by auto
    from "2.IH"(1) [OF None this] None show ?thesis by simp
  next
    case (Some a)
    obtain n g where a: "a = (n, g)" by (cases a)
    have ih: "\<forall>p \<in> set (filter_None (split_from (Some (last (take n (c # cs)))) [] (drop n (c # cs)))). good_piece p"
      using "2.IH"(2) [OF Some a [symmetric]] by simp
    have g: "g = Some p \<Longrightarrow> good_piece p" for p
    proof -
      assume gp: "g = Some p"
      then have mi: "match_index (c # cs) = Some n" and p: "p = take n (c # cs)"
        using Some a by (auto simp: match_delim_def split: option.splits)
      obtain q where "c # cs = p @ q" using p by (metis append_take_drop_id)
      have n: "n \<le> length (c # cs)" using match_index_bounds [OF mi] by simp
      then have lp: "length p = n" using p by simp
      from mi obtain r0 m where c: "c # cs = CHR ''['' # r0"
        and m: "m = (if take 1 r0 = ''-'' then 1 else (0::nat))"
        and tw: "takeWhile is_digit (drop m r0) \<noteq> []"
        and d: "take 1 (dropWhile is_digit (drop m r0)) = '']''"
        and nn: "n = 1 + m + length (takeWhile is_digit (drop m r0)) + 1"
        unfolding match_index_Some by blast
      define ds where "ds = takeWhile is_digit (drop m r0)"
      obtain rest where rest: "dropWhile is_digit (drop m r0) = CHR '']'' # rest"
        using d by (cases "dropWhile is_digit (drop m r0)") auto
      have r0: "r0 \<noteq> []" using tw by auto
      have tk: "take m r0 = (if m = 1 then ''-'' else [])"
        unfolding m using r0 by (cases r0) auto
      have "drop m r0 = ds @ CHR '']'' # rest"
        unfolding ds_def rest [symmetric] by simp
      then have "r0 = take m r0 @ ds @ CHR '']'' # rest"
        by (metis append_take_drop_id)
      then have full: "c # cs = index_str (m = 1) ds @ rest"
        unfolding c index_str_def using tk by simp
      have dsd: "list_all is_digit ds" unfolding ds_def list_all_iff
        by (auto dest: set_takeWhileD)
      have dsn: "ds \<noteq> []" using tw ds_def by simp
      have "n = length (index_str (m = 1) ds)"
        unfolding nn index_str_def ds_def [symmetric] using m by simp
      then have "p = index_str (m = 1) ds" using p full by simp
      then show ?thesis
        using match_index_index_str [OF dsn dsd, of "m = 1" "[]"]
        by (simp add: good_piece_def)
    qed
    show ?thesis
      using Some a acc ih g by (cases g) (auto simp del: drop_Suc_Cons take_Suc_Cons)
  qed
qed

lemma collect_all_Inr:
  assumes "\<forall>x \<in> set xs. \<exists>y. f x = Inr y \<and> Q y"
  shows "\<exists>ys. collect (map f xs) = Inr ys \<and> (\<forall>y \<in> set ys. Q y)"
  using assms by (induction xs) auto

lemma filter_None_nonempty: "p \<in> set (filter_None ps) \<Longrightarrow> p \<noteq> []"
  by (induction ps rule: filter_None.induct) (auto split: if_splits)

lemma path_keys_total:
  "\<exists>ks. path_keys s = Inr ks \<and> (\<forall>t \<in> set ks. \<exists>k f. t = PathToken k f \<and> k \<noteq> PStr [])"
proof -
  have "\<forall>p \<in> set (filter_None (RE_PATH_KEY_DELIM_split s)).
          \<exists>y. path_token p = Inr y \<and> (\<exists>k f. y = PathToken k f \<and> k \<noteq> PStr [])"
    using split_from_good [of "[]" s None] path_token_good filter_None_nonempty
    unfolding RE_PATH_KEY_DELIM_split_def by blast
  then show ?thesis unfolding path_keys_def by (rule collect_all_Inr)
qed

lemma filter_None_append: "filter_None (xs @ ys) = filter_None xs @ filter_None ys"
  by (induction xs rule: filter_None.induct) auto

lemma collect_append:
  "collect (xs @ ys) =
     (case collect xs of
        Inl e \<Rightarrow> Inl e
      | Inr a \<Rightarrow> (case collect ys of Inl e \<Rightarrow> Inl e | Inr b \<Rightarrow> Inr (a @ b)))"
  by (induction xs rule: collect.induct) (auto split: sum.splits)

lemma index_str_nonempty: "index_str neg ds \<noteq> []"
  by (simp add: index_str_def)

lemma path_keys_append_index:
  assumes "ds \<noteq> []" "list_all is_digit ds"
  shows "\<exists>a b. path_keys u = Inr a \<and> path_keys v = Inr b \<and>
           path_keys (u @ index_str neg ds @ v) =
             Inr (a @ PathToken (PInt (if neg then - int (decimal ds) else int (decimal ds))) list_factory # b)"
proof -
  obtain a where a: "path_keys u = Inr a" using path_keys_total [of u] by blast
  obtain b where b: "path_keys v = Inr b" using path_keys_total [of v] by blast
  have "path_keys (u @ index_str neg ds @ v) =
        collect (map path_token (filter_None (RE_PATH_KEY_DELIM_split u))
                 @ path_token (index_str neg ds)
                 # map path_token (filter_None (RE_PATH_KEY_DELIM_split v)))"
    unfolding path_keys_def RE_PATH_KEY_DELIM_split_def split_from_append_index [OF assms]
    by (simp add: filter_None_append index_str_nonempty)
  also have "\<dots> = Inr (a @ PathToken (PInt (if neg then - int (decimal ds) else int (decimal ds))) list_factory # b)"
    using a b unfolding collect_append path_keys_def path_token_index_str [OF assms]
    by simp
  finally show ?thesis using a b by blast
qed

lemma skip_pairs_suffix: "set (skip_pairs s) \<subseteq> set s"
  by (induction s rule: skip_pairs.induct) auto

lemma match_dot_no_dot: "CHR ''.'' \<notin> set s \<Longrightarrow> match_dot prev s = None"
  using skip_pairs_suffix [of s]
  by (auto simp: match_dot_def split: list.splits)

lemma match_index_no_bracket: "CHR ''['' \<notin> set s \<Longrightarrow> match_index s = None"
  by (cases s) (auto simp: match_index_def)

lemma split_from_plain:
  "CHR ''.'' \<notin> set s \<Longrightarrow> CHR ''['' \<notin> set s \<Longrightarrow> split_from prev acc s = [Some (acc @ s)]"
proof (induction s arbitrary: prev acc)
  case Nil
  then show ?case by simp
next
  case (Cons c cs)
  have "match_delim prev (c # cs) = None"
    using Cons.prems by (simp add: match_delim_def match_dot_no_dot match_index_no_bracket)
  then show ?case using Cons by simp
qed

lemma path_keys_plain:
  assumes "CHR ''.'' \<notin> set s" "CHR ''['' \<notin> set s" "s \<noteq> []"
  shows "path_keys s = Inr [PathToken (PStr (unescape_path_key s)) dict_factory]"
  using assms
  by (simp add: path_keys_def RE_PATH_KEY_DELIM_split_def split_from_plain path_token_def
      RE_PATH_LIST_INDEX_match_def match_index_no_bracket)

lemma path_keys_Nil: "path_keys [] = Inr []"
  by (simp add: path_keys_def RE_PATH_KEY_DELIM_split_def)

lemma skip_pairs_run:
  "skip_pairs (replicate r (CHR 0x5C) @ CHR ''.'' # v) = replicate (r mod 2) (CHR 0x5C) @ CHR ''.'' # v"
proof (induction r rule: induct_nat_012)
  case 0
  then show ?case by (simp add: skip_pairs_nonbackslash)
next
  case 1
  then show ?case by simp
next
  case (ge2 n)
  then show ?case by simp
qed

lemma match_delim_backslash:
  "match_delim (Some (CHR 0x5C)) (c # s) = None" if "c \<noteq> CHR ''[''"
  using that by (simp add: match_delim_def match_dot_def match_index_def)

lemma split_from_inside_run:
  "split_from (Some (CHR 0x5C)) acc (replicate k (CHR 0x5C) @ CHR ''.'' # v)
   = split_from (Some (CHR ''.'')) (acc @ replicate k (CHR 0x5C) @ ''.'') v"
proof (induction k arbitrary: acc)
  case 0
  then show ?case by (simp add: match_delim_backslash)
next
  case (Suc k)
  show ?case
    using Suc [of "acc @ [CHR 0x5C]"]
    by (simp add: match_delim_backslash replicate_app_Cons_same)
qed

lemma split_from_odd_run:
  assumes "prev \<noteq> Some (CHR 0x5C)" "odd r"
  shows "split_from prev acc (replicate r (CHR 0x5C) @ CHR ''.'' # v)
         = split_from None (acc @ replicate r (CHR 0x5C) @ ''.'') v"
proof -
  obtain k where r: "r = Suc k" using assms(2) by (cases r) auto
  have "r mod 2 = 1" using assms(2) by (simp add: odd_iff_mod_2_eq_one)
  then have "match_dot prev (replicate r (CHR 0x5C) @ CHR ''.'' # v) = None"
    by (simp add: match_dot_def skip_pairs_run)
  moreover have "match_index (replicate r (CHR 0x5C) @ CHR ''.'' # v) = None"
    unfolding r by (simp add: match_index_def)
  ultimately have "match_delim prev (CHR 0x5C # replicate k (CHR 0x5C) @ CHR ''.'' # v) = None"
    unfolding r by (simp add: match_delim_def)
  then have "split_from prev acc (replicate r (CHR 0x5C) @ CHR ''.'' # v)
    = split_from (Some (CHR 0x5C)) (acc @ [CHR 0x5C]) (replicate k (CHR 0x5C) @ CHR ''.'' # v)"
    unfolding r by simp
  also have "\<dots> = split_from (Some (CHR ''.'')) (acc @ replicate r (CHR 0x5C) @ ''.'') v"
    unfolding split_from_inside_run r by (simp add: replicate_app_Cons_same)
  finally show ?thesis
    using split_from_prev [of "Some (CHR ''.'')" None] by simp
qed

lemma split_from_even_run:
  assumes "prev \<noteq> Some (CHR 0x5C)" "even r"
  shows "split_from prev acc (replicate r (CHR 0x5C) @ CHR ''.'' # v)
         = Some acc # None # split_from None [] v"
proof -
  define s where "s = replicate r (CHR 0x5C) @ CHR ''.'' # v"
  obtain c cs where cs: "s = c # cs" by (cases s) (auto simp: s_def)
  have "r mod 2 = 0" using assms(2) by simp
  then have "skip_pairs s = CHR ''.'' # v"
    by (simp add: s_def skip_pairs_run)
  moreover have "length s - length v = Suc r" by (simp add: s_def)
  ultimately have "match_dot prev s = Some (Suc r)"
    using assms(1) by (simp add: match_dot_def)
  then have m: "match_delim prev (c # cs) = Some (Suc r, None)"
    by (simp add: match_delim_def cs)
  have t: "take (Suc r) s = replicate r (CHR 0x5C) @ ''.''" by (simp add: s_def)
  have d: "drop (Suc r) s = v" by (simp add: s_def)
  have "split_from prev acc s =
          Some acc # None # split_from (Some (last (take (Suc r) s))) [] (drop (Suc r) s)"
    unfolding cs by (simp add: m del: take_Suc_Cons drop_Suc_Cons)
  then have "split_from prev acc s = Some acc # None # split_from (Some (CHR ''.'')) [] v"
    unfolding t d by simp
  then have "split_from prev acc s = Some acc # None # split_from None [] v"
    using split_from_prev [of "Some (CHR ''.'')" None "[]" v] by simp
  then show ?thesis unfolding s_def .
qed

lemma replace_backslashes_escape:
  "str_replace [CHR 0x5C, CHR 0x5C] [CHR 0x5C] (escape_path_key k) = escape_dots k"
  by (induction k) (auto simp: escape_path_key_def escape_dots_def escape_char_def)

lemma escape_dots_no_leading_dot: "\<not> prefix ''.'' (escape_dots k)"
  by (cases k) (auto simp: escape_dots_def)

lemma replace_dots_escape:
  "str_replace [CHR 0x5C, CHR ''.''] ''.'' (escape_dots k) = k"
proof (induction k)
  case Nil
  then show ?case by (simp add: escape_dots_def)
next
  case (Cons c k)
  have e: "escape_dots (c # k) = (if c = CHR ''.'' then [CHR 0x5C, c] else [c]) @ escape_dots k"
    by (simp add: escape_dots_def)
  show ?case
  proof (cases "c = CHR ''.''")
    case True
    then show ?thesis using Cons e by simp
  next
    case False
    have "\<not> prefix [CHR 0x5C, CHR ''.''] (c # escape_dots k)"
      using escape_dots_no_leading_dot [of k] by (cases "escape_dots k") auto
    then show ?thesis using False Cons e by simp
  qed
qed

lemma unescape_escape: "unescape_path_key (escape_path_key k) = k"
  by (simp add: unescape_path_key_def replace_backslashes_escape replace_dots_escape)

section \<open>Properties of the tokenizer\<close>

text \<open>
  C6 (as amended). A value that is neither a string, nor a number, nor the unset
  sentinel is returned by \<open>to_path_tokens\<close> as it is. In particular a list or a tuple of
  keys comes back as the same list or tuple, whatever its elements are: no element is
  made a \<open>PathToken\<close>, none gets a container factory, and nothing is parsed.
\<close>

theorem to_path_tokens_passthrough:
  "(\<not> is_string v \<and> \<not> is_number v \<and> v \<noteq> UNSET \<longrightarrow> to_path_tokens v = Inr v) \<and>
   to_path_tokens (PList xs) = Inr (PList xs) \<and>
   to_path_tokens (PTuple xs) = Inr (PTuple xs)"
  by (simp add: to_path_tokens_def is_string_def is_number_def)

theorem to_path_tokens_passthrough_witness:
  "\<not> is_string PNone \<and> \<not> is_number PNone \<and> PNone \<noteq> UNSET \<and>
   to_path_tokens PNone = Inr PNone \<and>
   to_path_tokens (PList [PStr ''a'', PInt 0, PStr ''b.c'']) = Inr (PList [PStr ''a'', PInt 0, PStr ''b.c''])
   \<and> to_path_tokens (PTuple [PStr ''a'', PInt 0]) = Inr (PTuple [PStr ''a'', PInt 0])"
  using to_path_tokens_passthrough [of PNone "[PStr ''a'', PInt 0, PStr ''b.c'']"]
    to_path_tokens_passthrough [of PNone "[PStr ''a'', PInt 0]"]
  by (simp add: is_string_def is_number_def)

theorem to_path_tokens_sequence_counterexample:
  "to_path_tokens (PList [PStr ''a'', PInt 0])
     \<noteq> Inr (PList [PathToken (PStr ''a'') dict_factory, PathToken (PInt 0) list_factory])"
  by (simp add: to_path_tokens_def is_string_def is_number_def)


text \<open>
  C4. The string \<open>a[0].b\<close> has exactly the three tokens \<open>a\<close> (dict), \<open>0\<close> (list) and
  \<open>b\<close> (dict). In general, wherever a bracketed integer, an optional minus and digits
  between brackets, stands in a string, between any text \<open>u\<close> and any text \<open>v\<close>, the
  tokens of the string are the tokens of \<open>u\<close>, then one list-kind token whose key is the
  integer the digits denote, then the tokens of \<open>v\<close>: the bracket needs no dot on either
  side. An empty \<open>u\<close> has no tokens, so a string may begin with the bracket, and a text
  without dot and bracket is one dict-kind token.
\<close>

theorem bracket_index_token:
  "to_path_tokens (PStr ''a[0].b'') =
     Inr (PList [PathToken (PStr ''a'') dict_factory, PathToken (PInt 0) list_factory,
                 PathToken (PStr ''b'') dict_factory]) \<and>
   (ds \<noteq> [] \<and> list_all is_digit ds \<longrightarrow>
      (\<exists>a b. path_keys u = Inr a \<and> path_keys v = Inr b \<and>
         to_path_tokens (PStr (u @ index_str neg ds @ v)) =
           Inr (PList (a @ PathToken (PInt (if neg then - int (decimal ds) else int (decimal ds)))
                             list_factory # b)))) \<and>
   path_keys [] = Inr [] \<and>
   (CHR ''.'' \<notin> set s \<and> CHR ''['' \<notin> set s \<and> s \<noteq> [] \<longrightarrow>
      path_keys s = Inr [PathToken (PStr (unescape_path_key s)) dict_factory])"
proof (intro conjI impI)
  show "to_path_tokens (PStr ''a[0].b'') =
     Inr (PList [PathToken (PStr ''a'') dict_factory, PathToken (PInt 0) list_factory,
                 PathToken (PStr ''b'') dict_factory])"
    by code_simp
next
  assume d: "ds \<noteq> [] \<and> list_all is_digit ds"
  have "CHR ''['' \<in> set (u @ index_str neg ds @ v)"
    by (simp add: index_str_def)
  then have "to_path_tokens (PStr (u @ index_str neg ds @ v)) =
    (case path_keys (u @ index_str neg ds @ v) of Inl e \<Rightarrow> Inl e | Inr ks \<Rightarrow> Inr (PList ks))"
    by (simp add: to_path_tokens_def is_string_def)
  then show "\<exists>a b. path_keys u = Inr a \<and> path_keys v = Inr b \<and>
         to_path_tokens (PStr (u @ index_str neg ds @ v)) =
           Inr (PList (a @ PathToken (PInt (if neg then - int (decimal ds) else int (decimal ds)))
                             list_factory # b))"
    using path_keys_append_index [of ds u v neg] d by auto
next
  show "path_keys [] = Inr []" by (rule path_keys_Nil)
next
  assume "CHR ''.'' \<notin> set s \<and> CHR ''['' \<notin> set s \<and> s \<noteq> []"
  then show "path_keys s = Inr [PathToken (PStr (unescape_path_key s)) dict_factory]"
    by (simp add: path_keys_plain)
qed

theorem bracket_index_token_witness:
  "''12'' \<noteq> [] \<and> list_all is_digit ''12'' \<and>
   CHR ''.'' \<notin> set ''x'' \<and> CHR ''['' \<notin> set ''x'' \<and> ''x'' \<noteq> [] \<and>
   to_path_tokens (PStr ''[-12]x'') =
     Inr (PList [PathToken (PInt (- 12)) list_factory, PathToken (PStr ''x'') dict_factory])"
proof -
  have d: "''12'' \<noteq> [] \<and> list_all is_digit ''12''" by (simp add: is_digit_def)
  have p: "CHR ''.'' \<notin> set ''x'' \<and> CHR ''['' \<notin> set ''x'' \<and> ''x'' \<noteq> []" by simp
  have i: "[] @ index_str True ''12'' @ ''x'' = ''[-12]x''" by (simp add: index_str_def)
  have n: "decimal ''12'' = 12" by code_simp
  have x: "unescape_path_key ''x'' = ''x''" by code_simp
  from bracket_index_token [of "''12''" "[]" "''x''" True "''x''"] d p
  show ?thesis unfolding i n x by auto
qed

text \<open>
  C7. The empty string is one dict-kind token whose key is the empty string; the unset
  sentinel gives no token; \<open>a.b.\<close> and \<open>a..b\<close> give the two tokens \<open>a\<close> and \<open>b\<close>; and
  every string with a dot or an opening bracket is tokenized without error into
  \<open>PathToken\<close>s none of which has the empty string as its key.
\<close>

theorem tokenizer_edge_cases:
  "to_path_tokens (PStr []) = Inr (PList [PathToken (PStr []) dict_factory]) \<and>
   to_path_tokens UNSET = Inr (PList []) \<and>
   to_path_tokens (PStr ''a.b.'') =
     Inr (PList [PathToken (PStr ''a'') dict_factory, PathToken (PStr ''b'') dict_factory]) \<and>
   to_path_tokens (PStr ''a..b'') =
     Inr (PList [PathToken (PStr ''a'') dict_factory, PathToken (PStr ''b'') dict_factory]) \<and>
   (CHR ''.'' \<in> set s \<or> CHR ''['' \<in> set s \<longrightarrow>
      (\<exists>ts. to_path_tokens (PStr s) = Inr (PList ts) \<and>
         (\<forall>t \<in> set ts. \<exists>k f. t = PathToken k f \<and> k \<noteq> PStr [])))"
proof (intro conjI impI)
  show "to_path_tokens (PStr []) = Inr (PList [PathToken (PStr []) dict_factory])"
    by (simp add: to_path_tokens_def is_string_def)
  show "to_path_tokens UNSET = Inr (PList [])"
    by (simp add: to_path_tokens_def is_string_def is_number_def)
  show "to_path_tokens (PStr ''a.b.'') =
     Inr (PList [PathToken (PStr ''a'') dict_factory, PathToken (PStr ''b'') dict_factory])"
    by code_simp
  show "to_path_tokens (PStr ''a..b'') =
     Inr (PList [PathToken (PStr ''a'') dict_factory, PathToken (PStr ''b'') dict_factory])"
    by code_simp
next
  assume "CHR ''.'' \<in> set s \<or> CHR ''['' \<in> set s"
  then have "to_path_tokens (PStr s) =
    (case path_keys s of Inl e \<Rightarrow> Inl e | Inr ks \<Rightarrow> Inr (PList ks))"
    by (simp add: to_path_tokens_def is_string_def)
  then show "\<exists>ts. to_path_tokens (PStr s) = Inr (PList ts) \<and>
         (\<forall>t \<in> set ts. \<exists>k f. t = PathToken k f \<and> k \<noteq> PStr [])"
    using path_keys_total [of s] by auto
qed

theorem tokenizer_edge_cases_witness:
  "CHR ''.'' \<in> set ''.a..'' \<and>
   to_path_tokens (PStr ''.a..'') = Inr (PList [PathToken (PStr ''a'') dict_factory])"
proof -
  have e: "to_path_tokens (PStr ''.a..'') = Inr (PList [PathToken (PStr ''a'') dict_factory])"
    by code_simp
  from tokenizer_edge_cases [of "''.a..''"] show ?thesis unfolding e by simp
qed

text \<open>
  C5 (as amended). A dot that stands after an odd number of backslashes is not a
  delimiter: the scan, arriving at the run of backslashes, goes on after the dot with the
  run and the dot added to the current segment. A dot that stands after an even number
  of backslashes is a delimiter, also when that number is not zero: the segment ends
  before the backslashes, which are dropped with the dot. The key of a segment that is
  not a bracketed integer is the segment with each pair of backslashes replaced by one
  backslash and then each backslash-dot replaced by a dot; backslash-dot becomes a dot
  and two backslashes become one. The four characters \<open>a\<close>, backslash, dot, \<open>b\<close> give
  the single dict-kind token with key \<open>a.b\<close>.
\<close>

theorem escaped_dot_not_delimiter:
  "(prev \<noteq> Some (CHR 0x5C) \<and> odd r \<longrightarrow>
      split_from prev acc (replicate r (CHR 0x5C) @ CHR ''.'' # v)
        = split_from None (acc @ replicate r (CHR 0x5C) @ ''.'') v) \<and>
   (prev \<noteq> Some (CHR 0x5C) \<and> even r \<longrightarrow>
      split_from prev acc (replicate r (CHR 0x5C) @ CHR ''.'' # v)
        = Some acc # None # split_from None [] v) \<and>
   (\<not> RE_PATH_LIST_INDEX_match k \<longrightarrow>
      path_token k =
        Inr (PathToken
               (PStr (str_replace [CHR 0x5C, CHR ''.''] ''.''
                        (str_replace [CHR 0x5C, CHR 0x5C] [CHR 0x5C] k)))
               dict_factory)) \<and>
   unescape_path_key [CHR 0x5C, CHR ''.''] = ''.'' \<and>
   unescape_path_key [CHR 0x5C, CHR 0x5C] = [CHR 0x5C] \<and>
   to_path_tokens (PStr [CHR ''a'', CHR 0x5C, CHR ''.'', CHR ''b''])
     = Inr (PList [PathToken (PStr ''a.b'') dict_factory])"
proof (intro conjI impI)
  assume "prev \<noteq> Some (CHR 0x5C) \<and> odd r"
  then show "split_from prev acc (replicate r (CHR 0x5C) @ CHR ''.'' # v)
        = split_from None (acc @ replicate r (CHR 0x5C) @ ''.'') v"
    by (simp add: split_from_odd_run)
next
  assume "prev \<noteq> Some (CHR 0x5C) \<and> even r"
  then show "split_from prev acc (replicate r (CHR 0x5C) @ CHR ''.'' # v)
        = Some acc # None # split_from None [] v"
    by (simp add: split_from_even_run)
next
  assume "\<not> RE_PATH_LIST_INDEX_match k"
  then show "path_token k =
        Inr (PathToken
               (PStr (str_replace [CHR 0x5C, CHR ''.''] ''.''
                        (str_replace [CHR 0x5C, CHR 0x5C] [CHR 0x5C] k)))
               dict_factory)"
    by (simp add: path_token_def unescape_path_key_def)
next
  show "unescape_path_key [CHR 0x5C, CHR ''.''] = ''.''" by code_simp
  show "unescape_path_key [CHR 0x5C, CHR 0x5C] = [CHR 0x5C]" by code_simp
  show "to_path_tokens (PStr [CHR ''a'', CHR 0x5C, CHR ''.'', CHR ''b''])
     = Inr (PList [PathToken (PStr ''a.b'') dict_factory])" by code_simp
qed

theorem escaped_dot_not_delimiter_witness:
  "Some (CHR ''a'') \<noteq> Some (CHR 0x5C) \<and> odd (3::nat) \<and> even (2::nat) \<and>
   split_from (Some (CHR ''a'')) ''a'' [CHR 0x5C, CHR 0x5C, CHR 0x5C, CHR ''.'', CHR ''b'']
     = [Some [CHR ''a'', CHR 0x5C, CHR 0x5C, CHR 0x5C, CHR ''.'', CHR ''b'']] \<and>
   split_from (Some (CHR ''a'')) ''a'' [CHR 0x5C, CHR 0x5C, CHR ''.'', CHR ''b'']
     = [Some ''a'', None, Some ''b''] \<and>
   \<not> RE_PATH_LIST_INDEX_match [CHR ''a'', CHR 0x5C, CHR 0x5C, CHR 0x5C, CHR ''.'', CHR ''b''] \<and>
   path_token [CHR ''a'', CHR 0x5C, CHR 0x5C, CHR 0x5C, CHR ''.'', CHR ''b'']
     = Inr (PathToken (PStr [CHR ''a'', CHR 0x5C, CHR ''.'', CHR ''b'']) dict_factory)"
proof -
  have h: "Some (CHR ''a'') \<noteq> Some (CHR 0x5C) \<and> odd (3::nat)" by simp
  have h2: "Some (CHR ''a'') \<noteq> Some (CHR 0x5C) \<and> even (2::nat)" by simp
  have m: "\<not> RE_PATH_LIST_INDEX_match [CHR ''a'', CHR 0x5C, CHR 0x5C, CHR 0x5C, CHR ''.'', CHR ''b'']"
    by code_simp
  have r: "replicate 3 (CHR 0x5C) @ CHR ''.'' # ''b'' = [CHR 0x5C, CHR 0x5C, CHR 0x5C, CHR ''.'', CHR ''b'']"
    by (simp add: numeral_3_eq_3)
  have r2: "replicate 2 (CHR 0x5C) @ CHR ''.'' # ''b'' = [CHR 0x5C, CHR 0x5C, CHR ''.'', CHR ''b'']"
    by (simp add: numeral_2_eq_2)
  have s: "split_from None (''a'' @ replicate 3 (CHR 0x5C) @ ''.'') ''b''
           = [Some [CHR ''a'', CHR 0x5C, CHR 0x5C, CHR 0x5C, CHR ''.'', CHR ''b'']]"
    by code_simp
  have s2: "split_from None [] ''b'' = [Some ''b'']" by code_simp
  have u: "str_replace [CHR 0x5C, CHR ''.''] ''.''
             (str_replace [CHR 0x5C, CHR 0x5C] [CHR 0x5C]
                [CHR ''a'', CHR 0x5C, CHR 0x5C, CHR 0x5C, CHR ''.'', CHR ''b''])
           = [CHR ''a'', CHR 0x5C, CHR ''.'', CHR ''b'']"
    by code_simp
  note t = escaped_dot_not_delimiter [of "Some (CHR ''a'')" _ "''a''" "''b''"
      "[CHR ''a'', CHR 0x5C, CHR 0x5C, CHR 0x5C, CHR ''.'', CHR ''b'']"]
  have 1: "split_from (Some (CHR ''a'')) ''a'' [CHR 0x5C, CHR 0x5C, CHR 0x5C, CHR ''.'', CHR ''b'']
     = [Some [CHR ''a'', CHR 0x5C, CHR 0x5C, CHR 0x5C, CHR ''.'', CHR ''b'']]"
    using t [of 3, THEN conjunct1, rule_format, OF h] unfolding r s .
  have 2: "split_from (Some (CHR ''a'')) ''a'' [CHR 0x5C, CHR 0x5C, CHR ''.'', CHR ''b'']
     = [Some ''a'', None, Some ''b'']"
    using t [of 2, THEN conjunct2, THEN conjunct1, rule_format, OF h2] unfolding r2 s2 .
  have 3: "path_token [CHR ''a'', CHR 0x5C, CHR 0x5C, CHR 0x5C, CHR ''.'', CHR ''b'']
     = Inr (PathToken (PStr [CHR ''a'', CHR 0x5C, CHR ''.'', CHR ''b'']) dict_factory)"
    using t [of 3, THEN conjunct2, THEN conjunct2, THEN conjunct1, rule_format, OF m] unfolding u .
  from h h2 1 2 m 3 show ?thesis by simp
qed

theorem escaped_backslash_dot_counterexample:
  "to_path_tokens (PStr [CHR ''a'', CHR 0x5C, CHR 0x5C, CHR ''.'', CHR ''b''])
     = Inr (PList [PathToken (PStr ''a'') dict_factory, PathToken (PStr ''b'') dict_factory])"
  by code_simp


section \<open>Lemmas about chains\<close>

lemma lookup_append_new [simp]: "lookup (xs @ [x]) (length xs) = Some x"
  by (simp add: lookup_def)


lemma length_links [simp]: "length (links pyd n s ops) = length ops"
  by (induction pyd n s ops rule: links.induct) auto


lemma Chain_attribute_not_own:
  assumes "\<not> own_attribute special attr" "lookup (chains h) self = Some s"
  shows "Chain_attribute special pyd self attr h =
           (case Chain_getattr pyd self attr h of
              None \<Rightarrow> None
            | Some (Inl e, h') \<Rightarrow> Some (Inl e, h')
            | Some (Inr w, h') \<Rightarrow> Some (Inr (Builder w), h'))"
  using assms by (simp add: Chain_attribute_def own_attribute_def)

lemma Chain_attribute_own:
  assumes "own_attribute special attr" "lookup (chains h) self = Some s"
  shows "Chain_attribute special pyd self attr h =
           Some (Inr (if attr = ''_value'' then Field s
                      else if attr \<in> set Chain_methods then BoundMethod attr
                      else SpecialAttribute), h)"
  using assms by (auto simp: Chain_attribute_def own_attribute_def)


lemma sum_case_id: "(case r of Inl e \<Rightarrow> Inl e | Inr v \<Rightarrow> Inr v) = r"
  by (cases r) auto
















section \<open>Properties of chains\<close>

lemma not_own_examples:
  "\<not> own_attribute dunder ''add''" "\<not> own_attribute dunder ''multiply''"
  "\<not> own_attribute dunder ''not_a_real_fn''" "\<not> own_attribute dunder ''__version__''"
  by (simp_all add: own_attribute_def Chain_methods_def dunder_def)

lemma registered_examples:
  "registered registry ''add''" "registered registry ''multiply''"
  "registered registry ''to_string''" "\<not> registered registry ''value''"
  "\<not> registered registry ''not_a_real_fn''" "\<not> registered registry ''__version__''"
  by (simp_all add: registered_def registry_def)





text \<open>
  C2 (as amended). Attribute access on a live chain, for every name that the \<open>Chain\<close>
  does not define itself (every name other than \<open>_value\<close>, \<open>value\<close>, \<open>value_of\<close>,
  \<open>to_string\<close> and the special names): when the name is not bound to a callable in
  the registry (it is missing, or bound to something that is not callable), the access
  itself returns the \<open>InvalidMethod\<close> error, whose message ends with the requested name,
  and leaves the heap as it was: nothing is allocated and no registry function is
  called; no call of \<open>value\<close> is involved. When the name is bound to a callable, the
  access returns a pending builder, a new \<open>ChainWrapper\<close> that holds the value slot of
  the chain and the callable, with no arguments yet, and again calls nothing.
\<close>

theorem getattr_invalid_method:
  assumes "lookup (chains h) self = Some s" and "\<not> own_attribute special attr"
  shows "(\<not> registered pyd attr \<longrightarrow>
            Chain_attribute special pyd self attr h =
              Some (Inl (InvalidMethod (''Invalid pydash method: '' @ attr)), h)) \<and>
         (\<forall>m. pyd attr = Some (Callable m) \<longrightarrow>
            Chain_attribute special pyd self attr h =
              Some (Inr (Builder (length (wrappers h))),
                    h\<lparr>wrappers := wrappers h @ [\<lparr>cw_value = s, cw_method = m, args = [], kargs = []\<rparr>]\<rparr>)) \<and>
         (\<forall>r h'. Chain_attribute special pyd self attr h = Some (r, h') \<longrightarrow>
            calls h' = calls h \<and> chains h' = chains h) \<and>
         isinstance (InvalidMethod (''Invalid pydash method: '' @ attr)) ''InvalidMethod'' \<and>
         msg (InvalidMethod (''Invalid pydash method: '' @ attr)) = ''Invalid pydash method: '' @ attr"
proof (intro conjI allI impI)
  note a = Chain_attribute_not_own [OF assms(2) assms(1)]
  {
    assume "\<not> registered pyd attr"
    then show "Chain_attribute special pyd self attr h =
        Some (Inl (InvalidMethod (''Invalid pydash method: '' @ attr)), h)"
      unfolding a using assms(1)
      by (simp add: Chain_getattr_def registered_def split: option.splits attribute.splits)
  next
    fix m assume "pyd attr = Some (Callable m)"
    then show "Chain_attribute special pyd self attr h =
        Some (Inr (Builder (length (wrappers h))),
              h\<lparr>wrappers := wrappers h @ [\<lparr>cw_value = s, cw_method = m, args = [], kargs = []\<rparr>]\<rparr>)"
      unfolding a using assms(1) by (simp add: Chain_getattr_def ChainWrapper_init_def)
  next
    fix r h' assume g: "Chain_attribute special pyd self attr h = Some (r, h')"
    from g assms(1) show "calls h' = calls h"
      unfolding a
      by (auto simp: Chain_getattr_def ChainWrapper_init_def split: option.splits attribute.splits)
    from g assms(1) show "chains h' = chains h"
      unfolding a
      by (auto simp: Chain_getattr_def ChainWrapper_init_def split: option.splits attribute.splits)
  next
    show "isinstance (InvalidMethod (''Invalid pydash method: '' @ attr)) ''InvalidMethod''"
      by (simp add: InvalidMethod_def isinstance_def)
  next
    show "msg (InvalidMethod (''Invalid pydash method: '' @ attr)) = ''Invalid pydash method: '' @ attr"
      by (simp add: InvalidMethod_def)
  }
qed

theorem getattr_invalid_method_witness:
  "lookup (chains \<lparr>chains = [Plain (IntV 1)], wrappers = [], calls = []\<rparr>) 0 = Some (Plain (IntV 1)) \<and>
   \<not> own_attribute dunder ''not_a_real_fn'' \<and> \<not> registered registry ''not_a_real_fn'' \<and>
   Chain_attribute dunder registry 0 ''not_a_real_fn''
       \<lparr>chains = [Plain (IntV 1)], wrappers = [], calls = []\<rparr>
     = Some (Inl (InvalidMethod ''Invalid pydash method: not_a_real_fn''),
             \<lparr>chains = [Plain (IntV 1)], wrappers = [], calls = []\<rparr>) \<and>
   \<not> own_attribute dunder ''__version__'' \<and> \<not> registered registry ''__version__'' \<and>
   Chain_attribute dunder registry 0 ''__version__''
       \<lparr>chains = [Plain (IntV 1)], wrappers = [], calls = []\<rparr>
     = Some (Inl (InvalidMethod ''Invalid pydash method: __version__''),
             \<lparr>chains = [Plain (IntV 1)], wrappers = [], calls = []\<rparr>) \<and>
   \<not> own_attribute dunder ''add'' \<and> registry ''add'' = Some (Callable add) \<and>
   Chain_attribute dunder registry 0 ''add'' \<lparr>chains = [Plain (IntV 1)], wrappers = [], calls = []\<rparr>
     = Some (Inr (Builder 0),
             \<lparr>chains = [Plain (IntV 1)],
              wrappers = [\<lparr>cw_value = Plain (IntV 1), cw_method = add, args = [], kargs = []\<rparr>],
              calls = []\<rparr>)"
proof -
  have l: "lookup (chains \<lparr>chains = [Plain (IntV 1)], wrappers = [], calls = []\<rparr>) 0
             = Some (Plain (IntV 1))"
    by (simp add: lookup_def)
  have n: "registry ''add'' = Some (Callable add)"
    by (simp add: registry_def)
  have a: "Chain_attribute dunder registry 0 ''not_a_real_fn''
       \<lparr>chains = [Plain (IntV 1)], wrappers = [], calls = []\<rparr>
     = Some (Inl (InvalidMethod ''Invalid pydash method: not_a_real_fn''),
             \<lparr>chains = [Plain (IntV 1)], wrappers = [], calls = []\<rparr>)"
    using getattr_invalid_method [OF l not_own_examples(3), of registry,
        THEN conjunct1, rule_format, OF registered_examples(5)] by simp
  have b: "Chain_attribute dunder registry 0 ''__version__''
       \<lparr>chains = [Plain (IntV 1)], wrappers = [], calls = []\<rparr>
     = Some (Inl (InvalidMethod ''Invalid pydash method: __version__''),
             \<lparr>chains = [Plain (IntV 1)], wrappers = [], calls = []\<rparr>)"
    using getattr_invalid_method [OF l not_own_examples(4), of registry,
        THEN conjunct1, rule_format, OF registered_examples(6)] by simp
  have c: "Chain_attribute dunder registry 0 ''add''
       \<lparr>chains = [Plain (IntV 1)], wrappers = [], calls = []\<rparr>
     = Some (Inr (Builder 0),
             \<lparr>chains = [Plain (IntV 1)],
              wrappers = [\<lparr>cw_value = Plain (IntV 1), cw_method = add, args = [], kargs = []\<rparr>],
              calls = []\<rparr>)"
    using getattr_invalid_method [OF l not_own_examples(1), of registry,
        THEN conjunct2, THEN conjunct1, rule_format, OF n] by simp
  from l not_own_examples(3) registered_examples(5) a not_own_examples(4) registered_examples(6) b
    not_own_examples(1) n c
  show ?thesis by (intro conjI)
qed

text \<open>
  \<open>value\<close> is not in the registry, yet \<open>chain(1).value\<close> raises nothing: it is the
  method of the class. \<open>to_string\<close> is a registered callable, yet \<open>chain(1).to_string\<close>
  is the method of the class too, not a pending builder.
\<close>

theorem own_attribute_access_counterexample:
  "\<not> registered registry ''value'' \<and>
   Chain_attribute dunder registry 0 ''value'' \<lparr>chains = [Plain (IntV 1)], wrappers = [], calls = []\<rparr>
     = Some (Inr (BoundMethod ''value''), \<lparr>chains = [Plain (IntV 1)], wrappers = [], calls = []\<rparr>) \<and>
   registered registry ''to_string'' \<and>
   Chain_attribute dunder registry 0 ''to_string'' \<lparr>chains = [Plain (IntV 1)], wrappers = [], calls = []\<rparr>
     = Some (Inr (BoundMethod ''to_string''), \<lparr>chains = [Plain (IntV 1)], wrappers = [], calls = []\<rparr>)"
  by (simp add: registered_def registry_def Chain_attribute_def Chain_methods_def lookup_def)





section \<open>Properties of \<open>retry\<close>, \<open>attempt\<close> and \<open>memoize\<close>\<close>

lemma calls_of_append [simp]: "calls_of (xs @ ys) = calls_of xs @ calls_of ys"
  by (simp add: calls_of_def)

lemma calls_of_failed_attempt [simp]: "calls_of (failed_attempt ob e i) = failed_attempt ob e i"
  by (cases ob) (simp_all add: calls_of_def failed_attempt_def)

lemma failed_attempt_nonempty [simp]: "failed_attempt ob e i \<noteq> []"
  by (simp add: failed_attempt_def)

lemma length_failed_attempts_Invoked:
  "length (filter is_Invoked (failed_attempts ob i es)) = length es"
  by (induction es arbitrary: i) (auto simp: failed_attempt_def split: option.splits)

lemma length_failed_attempts_Observed:
  "length (filter is_Observed (failed_attempts (Some f) i es)) = length es"
  by (induction es arbitrary: i) (auto simp: failed_attempt_def)

lemma length_failed_attempts_unobserved:
  "filter is_Observed (failed_attempts None i es) = []"
  by (induction es arbitrary: i) (auto simp: failed_attempt_def)

text \<open>One failed attempt: the call of \<open>func\<close> and the call of the observer.\<close>

lemma failed_attempt_events:
  assumes f: "func (state w) = (Inl e, s)"
    and quiet: "\<forall>ob. observing cfg = Some ob \<longrightarrow> (\<forall>as s. \<exists>s'. run ob as s = (Inr (), s'))"
    and argc: "argcount = (case on_exception cfg of
                   Some ob \<Rightarrow> if truthy ob then getargcount ob 2 else 0
                 | None \<Rightarrow> 0)"
  shows "\<exists>w1 w2. call_func func w = (Inl e, w1) \<and>
           (case on_exception cfg of
              Some ob \<Rightarrow>
                if truthy ob then callit ob [ExcArg e, IntArg i] argcount w1 else (Inr (), w1)
            | None \<Rightarrow> (Inr (), w1)) = (Inr (), w2) \<and>
           trace w2 = trace w @ failed_attempt (observing cfg) e i \<and>
           entropy w2 = entropy w"
proof -
  define w1 where "w1 = w\<lparr>state := s, trace := trace w @ [Invoked (Inl e)]\<rparr>"
  have cf: "call_func func w = (Inl e, w1)"
    by (simp add: call_func_def f w1_def)
  show ?thesis
  proof (cases "observing cfg")
    case None
    then have "(case on_exception cfg of
                  Some ob \<Rightarrow>
                    if truthy ob then callit ob [ExcArg e, IntArg i] argcount w1 else (Inr (), w1)
                | None \<Rightarrow> (Inr (), w1)) = (Inr (), w1)"
      by (auto simp: observing_def split: option.splits if_splits)
    moreover have "trace w1 = trace w @ [Invoked (Inl e)]" "entropy w1 = entropy w"
      by (simp_all add: w1_def)
    ultimately show ?thesis
      using cf None by (intro exI [of _ w1]) (simp add: failed_attempt_def)
  next
    case (Some ob)
    then have on: "on_exception cfg = Some ob" and tr: "truthy ob"
      by (auto simp: observing_def split: option.splits if_splits)
    have a: "take (min (length [ExcArg e, IntArg i]) argcount) [ExcArg e, IntArg i] =
             take (min 2 (accepts ob)) [ExcArg e, IntArg i]"
      using argc on tr by (simp add: getargcount_def min.commute)
    from quiet Some obtain s' where
      r: "run ob (take (min 2 (accepts ob)) [ExcArg e, IntArg i]) (state w1) = (Inr (), s')"
      by blast
    define w2 where "w2 = w1\<lparr>state := s',
       trace := trace w1 @ [Observed (take (min 2 (accepts ob)) [ExcArg e, IntArg i])]\<rparr>"
    have "callit ob [ExcArg e, IntArg i] argcount w1 = (Inr (), w2)"
      unfolding callit_def a using r by (simp add: w2_def)
    moreover have "trace w2 = trace w @ failed_attempt (Some ob) e i"
      by (simp add: w2_def w1_def failed_attempt_def)
    moreover have "entropy w2 = entropy w" by (simp add: w2_def w1_def)
    ultimately show ?thesis using cf Some on tr by simp
  qed
qed

text \<open>Between two attempts: a draw for the jitter and a sleep, no call.\<close>

lemma between_attempts:
  "\<exists>dt' w4 mid.
     (case (case jit of
              Some (lo, hi) \<Rightarrow> (case random lo hi w2 of (x, w3) \<Rightarrow> (delay_time + max 0 x, w3))
            | None \<Rightarrow> (delay_time, w2)) of
        (dt, w3) \<Rightarrow>
          if dt < 0 then attempts_loop cfg jit argcount func rest dt w3
          else
            (let dt' = (if max_delay cfg \<noteq> 0 then min dt (max_delay cfg) else dt)
             in attempts_loop cfg jit argcount func rest (dt' * scale cfg) (sleep dt' w3)))
       = attempts_loop cfg jit argcount func rest dt' w4 \<and>
     trace w4 = trace w2 @ mid \<and> calls_of mid = [] \<and> state w4 = state w2"
proof (cases jit)
  case None
  show ?thesis
  proof (cases "delay_time < 0")
    case True
    with None show ?thesis
      by (intro exI [of _ delay_time] exI [of _ w2] exI [of _ "[]"]) (simp add: calls_of_def)
  next
    case False
    define dt' where "dt' = (if max_delay cfg \<noteq> 0 then min delay_time (max_delay cfg) else delay_time)"
    from None False show ?thesis
      by (intro exI [of _ "dt' * scale cfg"] exI [of _ "sleep dt' w2"] exI [of _ "[Slept dt']"])
         (simp add: calls_of_def sleep_def dt'_def Let_def)
  qed
next
  case (Some p)
  obtain lo hi where p: "p = (lo, hi)" by (cases p)
  define x where "x = entropy w2 (drawn w2)"
  define w3 where "w3 = w2\<lparr>trace := trace w2 @ [Drew lo hi], drawn := Suc (drawn w2)\<rparr>"
  define dt where "dt = delay_time + max 0 x"
  have r: "random lo hi w2 = (x, w3)" by (simp add: random_def x_def w3_def)
  show ?thesis
  proof (cases "dt < 0")
    case True
    with Some p r show ?thesis
      by (intro exI [of _ dt] exI [of _ w3] exI [of _ "[Drew lo hi]"])
         (simp add: calls_of_def dt_def w3_def)
  next
    case False
    define dt' where "dt' = (if max_delay cfg \<noteq> 0 then min dt (max_delay cfg) else dt)"
    from Some p r False show ?thesis
      by (intro exI [of _ "dt' * scale cfg"] exI [of _ "sleep dt' w3"]
            exI [of _ "[Drew lo hi, Slept dt']"])
         (simp add: calls_of_def sleep_def dt'_def dt_def [symmetric] Let_def w3_def)
  qed
qed

lemma attempts_loop_always_fails:
  assumes fails: "\<forall>s. \<exists>e s'. func s = (Inl e, s') \<and> caught_by (map class_name (exceptions cfg)) e"
    and quiet: "\<forall>ob. observing cfg = Some ob \<longrightarrow> (\<forall>as s. \<exists>s'. run ob as s = (Inr (), s'))"
    and argc: "argcount = (case on_exception cfg of
                   Some ob \<Rightarrow> if truthy ob then getargcount ob 2 else 0
                 | None \<Rightarrow> 0)"
    and le: "i \<le> attempts cfg"
  shows "\<exists>excs new pre w'.
           attempts_loop cfg jit argcount func [i .. attempts cfg] delay_time w = (Inl (last excs), w') \<and>
           length excs = nat (attempts cfg - i + 1) \<and>
           trace w' = trace w @ new \<and>
           calls_of new = failed_attempts (observing cfg) i excs \<and>
           new = pre @ failed_attempt (observing cfg) (last excs) (attempts cfg)"
  using le
proof (induction "nat (attempts cfg - i)" arbitrary: i delay_time w)
  case 0
  then have i: "i = attempts cfg" by simp
  from fails obtain e s where f: "func (state w) = (Inl e, s)"
    and c: "caught_by (map class_name (exceptions cfg)) e" by blast
  from failed_attempt_events [of func w e s cfg argcount i, OF f quiet argc] obtain w1 w2 where
    cf: "call_func func w = (Inl e, w1)" and
    ob: "(case on_exception cfg of
            Some ob \<Rightarrow>
              if truthy ob then callit ob [ExcArg e, IntArg i] argcount w1 else (Inr (), w1)
          | None \<Rightarrow> (Inr (), w1)) = (Inr (), w2)" and
    tr: "trace w2 = trace w @ failed_attempt (observing cfg) e i"
    by blast
  have l: "[i .. attempts cfg] = [i]" by (simp add: i)
  have "attempts_loop cfg jit argcount func [i .. attempts cfg] delay_time w = (Inl e, w2)"
    unfolding l by (simp add: cf c ob i [symmetric])
  then show ?case
    using tr i
    by (intro exI [of _ "[e]"] exI [of _ "failed_attempt (observing cfg) e i"]
          exI [of _ "[]"] exI [of _ w2]) simp
next
  case (Suc n)
  then have lt: "i < attempts cfg" and n: "n = nat (attempts cfg - (i + 1))"
    and le': "i + 1 \<le> attempts cfg" by simp_all
  from fails obtain e s where f: "func (state w) = (Inl e, s)"
    and c: "caught_by (map class_name (exceptions cfg)) e" by blast
  from failed_attempt_events [of func w e s cfg argcount i, OF f quiet argc] obtain w1 w2 where
    cf: "call_func func w = (Inl e, w1)" and
    ob: "(case on_exception cfg of
            Some ob \<Rightarrow>
              if truthy ob then callit ob [ExcArg e, IntArg i] argcount w1 else (Inr (), w1)
          | None \<Rightarrow> (Inr (), w1)) = (Inr (), w2)" and
    tr: "trace w2 = trace w @ failed_attempt (observing cfg) e i"
    by blast
  have l: "[i .. attempts cfg] = i # [i + 1 .. attempts cfg]"
    using lt by (simp add: upto_rec1)
  from between_attempts [where jit = jit and ?w2.0 = w2 and delay_time = delay_time and cfg = cfg
      and argcount = argcount and func = func and rest = "[i + 1 .. attempts cfg]"]
  obtain dt' w4 mid where
    b: "(case (case jit of
              Some (lo, hi) \<Rightarrow> (case random lo hi w2 of (x, w3) \<Rightarrow> (delay_time + max 0 x, w3))
            | None \<Rightarrow> (delay_time, w2)) of
        (dt, w3) \<Rightarrow>
          if dt < 0 then attempts_loop cfg jit argcount func [i + 1 .. attempts cfg] dt w3
          else
            (let dt' = (if max_delay cfg \<noteq> 0 then min dt (max_delay cfg) else dt)
             in attempts_loop cfg jit argcount func [i + 1 .. attempts cfg] (dt' * scale cfg) (sleep dt' w3)))
       = attempts_loop cfg jit argcount func [i + 1 .. attempts cfg] dt' w4"
    and t4: "trace w4 = trace w2 @ mid" and cm: "calls_of mid = []"
    by blast
  have step: "attempts_loop cfg jit argcount func [i .. attempts cfg] delay_time w =
              attempts_loop cfg jit argcount func [i + 1 .. attempts cfg] dt' w4"
    unfolding l using lt by (simp add: cf c ob b)
  from Suc.hyps(1) [OF n le', of dt' w4] obtain excs new pre w' where
    r: "attempts_loop cfg jit argcount func [i + 1 .. attempts cfg] dt' w4 = (Inl (last excs), w')" and
    len: "length excs = nat (attempts cfg - (i + 1) + 1)" and
    t': "trace w' = trace w4 @ new" and
    cn: "calls_of new = failed_attempts (observing cfg) (i + 1) excs" and
    pn: "new = pre @ failed_attempt (observing cfg) (last excs) (attempts cfg)"
    by blast
  from len le' have ne: "excs \<noteq> []" by auto
  define new' where "new' = failed_attempt (observing cfg) e i @ mid @ new"
  have 1: "attempts_loop cfg jit argcount func [i .. attempts cfg] delay_time w = (Inl (last (e # excs)), w')"
    using step r ne by simp
  have 2: "length (e # excs) = nat (attempts cfg - i + 1)"
    using len le' by simp
  have 3: "trace w' = trace w @ new'"
    by (simp add: t' t4 tr new'_def)
  have 4: "calls_of new' = failed_attempts (observing cfg) i (e # excs)"
    by (simp add: new'_def cm cn)
  have 5: "new' = (failed_attempt (observing cfg) e i @ mid @ pre) @
             failed_attempt (observing cfg) (last (e # excs)) (attempts cfg)"
    using pn ne by (simp add: new'_def)
  from 1 2 3 4 5 show ?case by blast
qed

lemma filter_Invoked_calls_of: "filter is_Invoked (calls_of es) = filter is_Invoked es"
  by (induction es) (auto simp: calls_of_def)

lemma filter_Observed_calls_of: "filter is_Observed (calls_of es) = filter is_Observed es"
  by (induction es) (auto simp: calls_of_def)

lemma retry_Inr:
  assumes "retry cfg = Inr deco"
  shows "0 < attempts cfg \<and>
         (\<exists>jit. deco = decorated cfg jit
            (case on_exception cfg of
                   Some ob \<Rightarrow> if truthy ob then getargcount ob 2 else 0
                 | None \<Rightarrow> 0))"
  using assms by (auto simp: retry_def split: if_splits)

text \<open>
  C3 (as amended). Let \<open>retry\<close> accept its arguments, let \<open>func\<close> raise on every call
  an exception that is an instance of one of \<open>exceptions\<close>, and let \<open>on_exception\<close>,
  when it is supplied and true, return normally whenever it is called. Then, for every
  delay, scale and jitter, a call of the decorated function ends by raising, after
  exactly \<open>attempts\<close> calls of \<open>func\<close>; the exception it raises is the one of the last
  call; \<open>on_exception\<close>, when supplied and true, is called exactly \<open>attempts\<close> times,
  once after each call of \<open>func\<close> with the exception just caught and the number of
  the attempt, also after the last one, and otherwise it is not called; and the call of
  \<open>func\<close> and of the observer for the last attempt are the last events before the
  exception leaves (no sleep follows them).
\<close>

theorem retry_always_failing:
  assumes ok: "retry cfg = Inr deco"
    and fails: "\<forall>s. \<exists>e s'. func s = (Inl e, s') \<and> caught_by (map class_name (exceptions cfg)) e"
    and quiet: "\<forall>ob. on_exception cfg = Some ob \<and> truthy ob \<longrightarrow>
                  (\<forall>as s. \<exists>s'. run ob as s = (Inr (), s'))"
  shows "\<exists>excs new pre w'.
           deco func w = (Inl (last excs), w') \<and>
           0 < attempts cfg \<and>
           length excs = nat (attempts cfg) \<and>
           trace w' = trace w @ new \<and>
           calls_of new = failed_attempts (observing cfg) 1 excs \<and>
           new = pre @ failed_attempt (observing cfg) (last excs) (attempts cfg) \<and>
           length (filter is_Invoked new) = nat (attempts cfg) \<and>
           length (filter is_Observed new) =
             (if \<exists>ob. on_exception cfg = Some ob \<and> truthy ob then nat (attempts cfg) else 0)"
proof -
  have quiet': "\<forall>ob. observing cfg = Some ob \<longrightarrow> (\<forall>as s. \<exists>s'. run ob as s = (Inr (), s'))"
    using quiet by (auto simp: observing_def split: option.splits if_splits)
  have obs: "(\<exists>ob. on_exception cfg = Some ob \<and> truthy ob) \<longleftrightarrow> observing cfg \<noteq> None"
    by (auto simp: observing_def split: option.splits if_splits)
  from retry_Inr [OF ok] obtain jit where pos: "0 < attempts cfg"
    and d: "deco = decorated cfg jit
              (case on_exception cfg of
                   Some ob \<Rightarrow> if truthy ob then getargcount ob 2 else 0
                 | None \<Rightarrow> 0)"
    by blast
  have le: "1 \<le> attempts cfg" using pos by simp
  from attempts_loop_always_fails [OF fails quiet' refl le, of jit "delay cfg" w]
  obtain excs new pre w' where
    r: "attempts_loop cfg jit (case on_exception cfg of
                   Some ob \<Rightarrow> if truthy ob then getargcount ob 2 else 0
                 | None \<Rightarrow> 0)
          func [1 .. attempts cfg] (delay cfg) w = (Inl (last excs), w')" and
    len: "length excs = nat (attempts cfg - 1 + 1)" and
    t: "trace w' = trace w @ new" and
    c: "calls_of new = failed_attempts (observing cfg) 1 excs" and
    p: "new = pre @ failed_attempt (observing cfg) (last excs) (attempts cfg)"
    by blast
  have 1: "deco func w = (Inl (last excs), w')"
    unfolding d decorated_def using r .
  have 2: "length excs = nat (attempts cfg)" using len by simp
  have "length (filter is_Invoked (calls_of new)) = length excs"
    unfolding c by (rule length_failed_attempts_Invoked)
  then have 3: "length (filter is_Invoked new) = nat (attempts cfg)"
    using 2 by (simp add: filter_Invoked_calls_of)
  have "length (filter is_Observed (calls_of new)) = (if observing cfg = None then 0 else length excs)"
    unfolding c
    by (cases "observing cfg")
       (simp_all add: length_failed_attempts_Observed length_failed_attempts_unobserved)
  then have 4: "length (filter is_Observed new) =
      (if \<exists>ob. on_exception cfg = Some ob \<and> truthy ob then nat (attempts cfg) else 0)"
    using 2 unfolding obs by (simp add: filter_Observed_calls_of)
  from 1 pos 2 t c p 3 4 show ?thesis by blast
qed

lemma always_fails_caught:
  "\<forall>s. \<exists>e s'. always_fails s = (Inl e, s') \<and>
      caught_by (map class_name (exceptions ((retry_defaults (Some counting_observer))\<lparr>delay := 0\<rparr>))) e"
  by (simp add: always_fails_def retry_defaults_def caught_by_def class_name_def Exception_def
      isinstance_def ValueError_def)

lemma counting_observer_quiet:
  "\<forall>ob. on_exception ((retry_defaults (Some counting_observer))\<lparr>delay := 0\<rparr>) = Some ob \<and> truthy ob \<longrightarrow>
      (\<forall>as s. \<exists>s'. run ob as s = (Inr (), s'))"
  by (simp add: retry_defaults_def counting_observer_def)

lemma retry_defaults_ok:
  "retry ((retry_defaults (Some counting_observer))\<lparr>delay := 0\<rparr>) =
     Inr (decorated ((retry_defaults (Some counting_observer))\<lparr>delay := 0\<rparr>) None 2)"
  by (simp add: retry_def retry_defaults_def issubclass_def Exception_def getargcount_def
      counting_observer_def)

lemma digits_examples:
  "digits 0 = ''0''" "digits 1 = ''1''" "digits 101 = ''101''" "digits 202 = ''202''"
  "digits (Suc 0) = ''1''" "digits (Suc (Suc 0)) = ''2''"
  by code_simp+

lemma upto_1_3: "[1 .. 3] = [1, 2, 3::int]"
  by (simp add: upto_rec1)

lemma decorated_always_fails:
  "decorated ((retry_defaults (Some counting_observer))\<lparr>delay := 0\<rparr>) None 2 always_fails initial_world
     = (Inl (ValueError ''202''),
        \<lparr>state = 303,
         trace = [Invoked (Inl (ValueError ''0'')), Observed [ExcArg (ValueError ''0''), IntArg 1],
                  Slept 0,
                  Invoked (Inl (ValueError ''101'')), Observed [ExcArg (ValueError ''101''), IntArg 2],
                  Slept 0,
                  Invoked (Inl (ValueError ''202'')), Observed [ExcArg (ValueError ''202''), IntArg 3]],
         entropy = (\<lambda>n. 0), drawn = 0\<rparr>)"
  by (simp add: decorated_def retry_defaults_def upto_1_3 call_func_def always_fails_def
      caught_by_def class_name_def Exception_def isinstance_def ValueError_def callit_def
      counting_observer_def initial_world_def sleep_def digits_examples)

theorem retry_always_failing_witness:
  "retry ((retry_defaults (Some counting_observer))\<lparr>delay := 0\<rparr>) =
     Inr (decorated ((retry_defaults (Some counting_observer))\<lparr>delay := 0\<rparr>) None 2) \<and>
   attempts ((retry_defaults (Some counting_observer))\<lparr>delay := 0\<rparr>) = 3 \<and>
   on_exception ((retry_defaults (Some counting_observer))\<lparr>delay := 0\<rparr>) = Some counting_observer \<and>
   truthy counting_observer \<and>
   (\<exists>excs new pre w'.
      decorated ((retry_defaults (Some counting_observer))\<lparr>delay := 0\<rparr>) None 2 always_fails initial_world
        = (Inl (last excs), w') \<and>
      length excs = 3 \<and>
      trace w' = new \<and>
      length (filter is_Invoked new) = 3 \<and>
      length (filter is_Observed new) = 3 \<and>
      new = pre @ [Invoked (Inl (last excs)), Observed [ExcArg (last excs), IntArg 3]]) \<and>
   decorated ((retry_defaults (Some counting_observer))\<lparr>delay := 0\<rparr>) None 2 always_fails initial_world
     = (Inl (ValueError ''202''),
        \<lparr>state = 303,
         trace = [Invoked (Inl (ValueError ''0'')), Observed [ExcArg (ValueError ''0''), IntArg 1],
                  Slept 0,
                  Invoked (Inl (ValueError ''101'')), Observed [ExcArg (ValueError ''101''), IntArg 2],
                  Slept 0,
                  Invoked (Inl (ValueError ''202'')), Observed [ExcArg (ValueError ''202''), IntArg 3]],
         entropy = (\<lambda>n. 0), drawn = 0\<rparr>)"
proof -
  have a: "attempts ((retry_defaults (Some counting_observer))\<lparr>delay := 0\<rparr>) = 3"
    by (simp add: retry_defaults_def)
  have o: "on_exception ((retry_defaults (Some counting_observer))\<lparr>delay := 0\<rparr>) = Some counting_observer"
    by (simp add: retry_defaults_def)
  have tc: "truthy counting_observer" by (simp add: counting_observer_def)
  have ob: "observing ((retry_defaults (Some counting_observer))\<lparr>delay := 0\<rparr>) = Some counting_observer"
    by (simp add: observing_def o tc)
  have t: "trace initial_world = []" by (simp add: initial_world_def)
  have f: "\<And>e. failed_attempt (Some counting_observer) e 3 =
             [Invoked (Inl e), Observed [ExcArg e, IntArg 3]]"
    by (simp add: failed_attempt_def counting_observer_def)
  from retry_always_failing [OF retry_defaults_ok always_fails_caught counting_observer_quiet,
      of initial_world]
  have "\<exists>excs new pre w'.
      decorated ((retry_defaults (Some counting_observer))\<lparr>delay := 0\<rparr>) None 2 always_fails initial_world
        = (Inl (last excs), w') \<and>
      length excs = 3 \<and>
      trace w' = new \<and>
      length (filter is_Invoked new) = 3 \<and>
      length (filter is_Observed new) = 3 \<and>
      new = pre @ [Invoked (Inl (last excs)), Observed [ExcArg (last excs), IntArg 3]]"
    unfolding a ob o t f using tc by (elim exE conjE, intro exI conjI) simp_all
  with retry_defaults_ok a o tc decorated_always_fails show ?thesis by (intro conjI)
qed

text \<open>
  With \<open>attempts=3\<close> and \<open>delay=0\<close> on a function that always raises a
  \<open>ValueError\<close>: an observer that raises ends the retries, \<open>func\<close> is called once
  and the exception that leaves is the observer's; an observer that is supplied but
  false is never called.
\<close>

theorem retry_observer_counterexample:
  "retry ((retry_defaults (Some raising_observer))\<lparr>delay := 0\<rparr>) =
     Inr (decorated ((retry_defaults (Some raising_observer))\<lparr>delay := 0\<rparr>) None 2) \<and>
   decorated ((retry_defaults (Some raising_observer))\<lparr>delay := 0\<rparr>) None 2 always_fails initial_world
     = (Inl (RuntimeError ''observer''),
        \<lparr>state = 1,
         trace = [Invoked (Inl (ValueError ''0'')), Observed [ExcArg (ValueError ''0''), IntArg 1]],
         entropy = (\<lambda>n. 0), drawn = 0\<rparr>) \<and>
   retry ((retry_defaults (Some falsy_observer))\<lparr>delay := 0\<rparr>) =
     Inr (decorated ((retry_defaults (Some falsy_observer))\<lparr>delay := 0\<rparr>) None 0) \<and>
   decorated ((retry_defaults (Some falsy_observer))\<lparr>delay := 0\<rparr>) None 0 always_fails initial_world
     = (Inl (ValueError ''2''),
        \<lparr>state = 3,
         trace = [Invoked (Inl (ValueError ''0'')), Slept 0,
                  Invoked (Inl (ValueError ''1'')), Slept 0,
                  Invoked (Inl (ValueError ''2''))],
         entropy = (\<lambda>n. 0), drawn = 0\<rparr>)"
proof -
  have 1: "retry ((retry_defaults (Some raising_observer))\<lparr>delay := 0\<rparr>) =
     Inr (decorated ((retry_defaults (Some raising_observer))\<lparr>delay := 0\<rparr>) None 2)"
    by (simp add: retry_def retry_defaults_def issubclass_def Exception_def getargcount_def
        raising_observer_def)
  have 2: "decorated ((retry_defaults (Some raising_observer))\<lparr>delay := 0\<rparr>) None 2
             always_fails initial_world
     = (Inl (RuntimeError ''observer''),
        \<lparr>state = 1,
         trace = [Invoked (Inl (ValueError ''0'')), Observed [ExcArg (ValueError ''0''), IntArg 1]],
         entropy = (\<lambda>n. 0), drawn = 0\<rparr>)"
    by (simp add: decorated_def retry_defaults_def upto_1_3 call_func_def always_fails_def
        caught_by_def class_name_def Exception_def isinstance_def ValueError_def callit_def
        raising_observer_def initial_world_def sleep_def digits_examples)
  have 3: "retry ((retry_defaults (Some falsy_observer))\<lparr>delay := 0\<rparr>) =
     Inr (decorated ((retry_defaults (Some falsy_observer))\<lparr>delay := 0\<rparr>) None 0)"
    by (simp add: retry_def retry_defaults_def issubclass_def Exception_def getargcount_def
        falsy_observer_def)
  have 4: "decorated ((retry_defaults (Some falsy_observer))\<lparr>delay := 0\<rparr>) None 0
             always_fails initial_world
     = (Inl (ValueError ''2''),
        \<lparr>state = 3,
         trace = [Invoked (Inl (ValueError ''0'')), Slept 0,
                  Invoked (Inl (ValueError ''1'')), Slept 0,
                  Invoked (Inl (ValueError ''2''))],
         entropy = (\<lambda>n. 0), drawn = 0\<rparr>)"
    by (simp add: decorated_def retry_defaults_def upto_1_3 call_func_def always_fails_def
        caught_by_def class_name_def Exception_def isinstance_def ValueError_def callit_def
        falsy_observer_def initial_world_def sleep_def digits_examples)
  from 1 2 3 4 show ?thesis by (intro conjI)
qed




lemma memoized_miss:
  assumes "cache m (Default (str_tuple repr a @ str_dict repr_key repr k)) = None"
    and "func a k (user m) = (Inr r, s)"
  shows "memoized repr_key repr func None a k m =
           (Inr r, m\<lparr>cache := (cache m)(Default (str_tuple repr a @ str_dict repr_key repr k) \<mapsto> r),
                      func_calls := func_calls m @ [(a, k)], user := s\<rparr>)"
  using assms by (simp add: memoized_def)

lemma memoized_hit:
  assumes "cache m (Default (str_tuple repr a @ str_dict repr_key repr k)) = Some r"
  shows "memoized repr_key repr func None a k m = (Inr r, m)"
  using assms by (simp add: memoized_def)

text \<open>
  C10. Without a resolver the cache key of a call is the text of the argument tuple
  followed by the text of the keyword dictionary. A call whose key is not in the cache
  calls \<open>func\<close> once with the arguments and, when it returns, stores the result under
  that key and returns it. A call whose key is in the cache returns the stored result
  and changes nothing: \<open>func\<close> is not called. No call removes or replaces an entry of
  the cache. So after a first call that returned
  \<open>r\<close>, every call whose arguments have the same text, whatever they are, returns \<open>r\<close>
  and leaves the cache and the list of calls of \<open>func\<close> as the first call left them.
\<close>

theorem memoize_default_key:
  "(\<forall>r s. cache m (Default (str_tuple repr a @ str_dict repr_key repr k)) = None \<and>
       func a k (user m) = (Inr r, s) \<longrightarrow>
       memoized repr_key repr func None a k m =
         (Inr r, m\<lparr>cache := (cache m)(Default (str_tuple repr a @ str_dict repr_key repr k) \<mapsto> r),
                    func_calls := func_calls m @ [(a, k)], user := s\<rparr>)) \<and>
   (\<forall>r. cache m (Default (str_tuple repr a @ str_dict repr_key repr k)) = Some r \<longrightarrow>
       memoized repr_key repr func None a k m = (Inr r, m)) \<and>
   (\<forall>r s a' k'. cache m (Default (str_tuple repr a @ str_dict repr_key repr k)) = None \<and>
       func a k (user m) = (Inr r, s) \<and>
       str_tuple repr a' @ str_dict repr_key repr k' = str_tuple repr a @ str_dict repr_key repr k \<longrightarrow>
       (\<exists>m1. memoized repr_key repr func None a k m = (Inr r, m1) \<and>
             func_calls m1 = func_calls m @ [(a, k)] \<and>
             memoized repr_key repr func None a' k' m1 = (Inr r, m1))) \<and>
   (\<forall>ck r. cache m ck = Some r \<longrightarrow>
       cache (snd (memoized repr_key repr func None a k m)) ck = Some r)"
proof (intro conjI allI impI)
  fix r s
  assume "cache m (Default (str_tuple repr a @ str_dict repr_key repr k)) = None \<and>
          func a k (user m) = (Inr r, s)"
  then show "memoized repr_key repr func None a k m =
         (Inr r, m\<lparr>cache := (cache m)(Default (str_tuple repr a @ str_dict repr_key repr k) \<mapsto> r),
                    func_calls := func_calls m @ [(a, k)], user := s\<rparr>)"
    by (simp add: memoized_miss)
next
  fix r
  assume "cache m (Default (str_tuple repr a @ str_dict repr_key repr k)) = Some r"
  then show "memoized repr_key repr func None a k m = (Inr r, m)"
    by (rule memoized_hit)
next
  fix r s a' k'
  assume h: "cache m (Default (str_tuple repr a @ str_dict repr_key repr k)) = None \<and>
       func a k (user m) = (Inr r, s) \<and>
       str_tuple repr a' @ str_dict repr_key repr k' = str_tuple repr a @ str_dict repr_key repr k"
  define m1 where "m1 = m\<lparr>cache := (cache m)(Default (str_tuple repr a @ str_dict repr_key repr k) \<mapsto> r),
                    func_calls := func_calls m @ [(a, k)], user := s\<rparr>"
  have 1: "memoized repr_key repr func None a k m = (Inr r, m1)"
    using h by (simp add: memoized_miss m1_def)
  have 2: "func_calls m1 = func_calls m @ [(a, k)]" by (simp add: m1_def)
  have "cache m1 (Default (str_tuple repr a' @ str_dict repr_key repr k')) = Some r"
    using h by (simp add: m1_def)
  then have 3: "memoized repr_key repr func None a' k' m1 = (Inr r, m1)"
    by (rule memoized_hit)
  from 1 2 3 show "\<exists>m1. memoized repr_key repr func None a k m = (Inr r, m1) \<and>
             func_calls m1 = func_calls m @ [(a, k)] \<and>
             memoized repr_key repr func None a' k' m1 = (Inr r, m1)"
    by blast
next
  fix ck r
  assume "cache m ck = Some r"
  then show "cache (snd (memoized repr_key repr func None a k m)) ck = Some r"
    by (auto simp: memoized_def split: option.splits prod.splits sum.splits)
qed

lemma key_examples:
  "str_tuple repr_obj [Number 1] @ str_dict repr_keyword repr_obj [] = ''(1,){}''"
  "str_tuple repr_obj [Instance 0 ''1''] @ str_dict repr_keyword repr_obj [] = ''(1,){}''"
  "str_tuple repr_obj [Number 1, Number 2, Number 3] @ str_dict repr_keyword repr_obj []
     = ''(1, 2, 3){}''"
  by code_simp+

theorem memoize_default_key_witness:
  "str_tuple repr_obj [Number 1] @ str_dict repr_keyword repr_obj [] = ''(1,){}'' \<and>
   str_tuple repr_obj [Instance 0 ''1''] @ str_dict repr_keyword repr_obj [] = ''(1,){}'' \<and>
   str_tuple repr_obj [Number 1, Number 2, Number 3] @ str_dict repr_keyword repr_obj []
     = ''(1, 2, 3){}'' \<and>
   Number 1 \<noteq> Instance 0 ''1'' \<and>
   identity [Instance 0 ''1''] [] () = (Inr (Instance 0 ''1''), ()) \<and>
   (\<exists>m1 :: (obj, obj, unit, unit) memo.
         memoized repr_keyword repr_obj identity None [Number 1] [] (memoize ()) = (Inr (Number 1), m1) \<and>
         func_calls m1 = [([Number 1], [])] \<and>
         cache m1 (Default ''(1,){}'') = Some (Number 1) \<and>
         memoized repr_keyword repr_obj identity None [Instance 0 ''1''] [] m1 = (Inr (Number 1), m1))"
proof -
  have c: "cache (memoize () :: (obj, obj, unit, unit) memo)
             (Default (str_tuple repr_obj [Number 1] @ str_dict repr_keyword repr_obj [])) = None"
    by (simp add: memoize_def)
  have f: "identity [Number 1] [] (user (memoize () :: (obj, obj, unit, unit) memo)) = (Inr (Number 1), ())"
    by (simp add: identity_def)
  have e: "str_tuple repr_obj [Instance 0 ''1''] @ str_dict repr_keyword repr_obj [] =
           str_tuple repr_obj [Number 1] @ str_dict repr_keyword repr_obj []"
    by (simp add: key_examples)
  have l: "func_calls (memoize () :: (obj, obj, unit, unit) memo) = []" by (simp add: memoize_def)
  from memoize_default_key [of "memoize () :: (obj, obj, unit, unit) memo" repr_obj "[Number 1]"
      repr_keyword "[]" identity, THEN conjunct2, THEN conjunct2, THEN conjunct1, rule_format, OF conjI [OF c conjI [OF f e]]]
  obtain m1 :: "(obj, obj, unit, unit) memo" where
    1: "memoized repr_keyword repr_obj identity None [Number 1] [] (memoize ()) = (Inr (Number 1), m1)" and
    2: "func_calls m1 = func_calls (memoize () :: (obj, obj, unit, unit) memo) @ [([Number 1], [])]" and
    3: "memoized repr_keyword repr_obj identity None [Instance 0 ''1''] [] m1 = (Inr (Number 1), m1)"
    by blast
  have "memoized repr_keyword repr_obj identity None [Number 1] [] (memoize ()) =
          (Inr (Number 1), \<lparr>cache = Map.empty(Default ''(1,){}'' \<mapsto> Number 1),
              func_calls = [([Number 1], [])], user = ()\<rparr> :: (obj, obj, unit, unit) memo)"
    by (simp add: memoized_def key_examples memoize_def identity_def)
  with 1 have 4: "cache m1 (Default ''(1,){}'') = Some (Number 1)" by auto
  have 5: "identity [Instance 0 ''1''] [] () = (Inr (Instance 0 ''1''), ())"
    by (simp add: identity_def)
  have 6: "Number 1 \<noteq> Instance 0 ''1''" by simp
  from 1 2 3 4 l have "\<exists>m1 :: (obj, obj, unit, unit) memo.
         memoized repr_keyword repr_obj identity None [Number 1] [] (memoize ()) = (Inr (Number 1), m1) \<and>
         func_calls m1 = [([Number 1], [])] \<and>
         cache m1 (Default ''(1,){}'') = Some (Number 1) \<and>
         memoized repr_keyword repr_obj identity None [Instance 0 ''1''] [] m1 = (Inr (Number 1), m1)"
    by auto
  with key_examples 5 6 show ?thesis by (intro conjI)
qed

end
